theory Spec2Isabelle
  imports Main "HOL-Library.Sublist" "HOL-Library.Multiset"
begin

section \<open>Strings and the JavaScript built-ins the proxy relies on\<close>

text \<open>
  A JavaScript string is a sequence of UTF-16 code units and \<open>.length\<close> counts them.
  Here a \<^typ>\<open>string\<close> is such a sequence, one \<^typ>\<open>char\<close> per code unit; the
  development covers the strings whose code units are below 256.

  \<open>s.startsWith(p)\<close> compares code unit by code unit from position 0.
\<close>

fun startsWith :: "string \<Rightarrow> string \<Rightarrow> bool" where
  "startsWith s [] = True"
| "startsWith [] (c # p) = False"
| "startsWith (d # s) (c # p) = (d = c \<and> startsWith s p)"

text \<open>
  \<open>String.prototype.trim\<close> removes WhiteSpace and LineTerminator code points from both
  ends: TAB, LF, VT, FF, CR, SP and NBSP are the ones below 256.
\<close>

definition js_whitespace :: "char \<Rightarrow> bool" where
  "js_whitespace c = (of_char c \<in> {9, 10, 11, 12, 13, 32, 160 :: nat})"

definition js_trim :: "string \<Rightarrow> string" where
  "js_trim s = rev (dropWhile js_whitespace (rev (dropWhile js_whitespace s)))"

text \<open>
  \<open>Array.prototype.sort(comparefn)\<close> on Node (the engine field of package.json asks for
  Node 18 or later) is a stable merge/insertion sort that always calls
  \<open>comparefn(later, earlier)\<close> on two elements and moves the later one in front of the
  earlier one only when the result is negative. \<open>insertLate\<close> places one more element
  into the already ordered front part, \<open>js_sort\<close> does so for every element from left to
  right.
\<close>

fun insertLate :: "('a \<Rightarrow> 'a \<Rightarrow> int) \<Rightarrow> 'a \<Rightarrow> 'a list \<Rightarrow> 'a list" where
  "insertLate cmp x [] = [x]"
| "insertLate cmp x (y # ys) =
     (if cmp x y < 0 then x # y # ys else y # insertLate cmp x ys)"

definition js_sort :: "('a \<Rightarrow> 'a \<Rightarrow> int) \<Rightarrow> 'a list \<Rightarrow> 'a list" where
  "js_sort cmp xs = foldl (\<lambda>acc x. insertLate cmp x acc) [] xs"

section \<open>Route table (src/vercel-proxy.ts, parseNginxConfig)\<close>

record RouteConfig =
  path :: string
  target :: string

text \<open>The comparator handed to \<open>routes.sort\<close>, lines 40 to 47.\<close>

definition compareRoutes :: "RouteConfig \<Rightarrow> RouteConfig \<Rightarrow> int" where
  "compareRoutes a b =
     (if path a = ''/'' then 1
      else if path b = ''/'' then - 1
      else int (length (path b)) - int (length (path a)))"

definition sortRoutes :: "RouteConfig list \<Rightarrow> RouteConfig list" where
  "sortRoutes routes = js_sort compareRoutes routes"

section \<open>Rule-based matching (useRuleBasedFallback, lines 84 to 89)\<close>

text \<open>
  The \<open>for ... of\<close> loop with its \<open>break\<close>: \<open>fallbackTarget\<close> starts as \<open>null\<close> and
  takes the target of the first route whose path the URL starts with.
\<close>

fun firstMatch :: "RouteConfig list \<Rightarrow> string \<Rightarrow> string option" where
  "firstMatch [] url = None"
| "firstMatch (route # routes) url =
     (if startsWith url (path route) then Some (target route) else firstMatch routes url)"

text \<open>The sort key that \<open>compareRoutes\<close> induces: the root path last, longer paths first.\<close>

definition rank :: "RouteConfig \<Rightarrow> int" where
  "rank r = (if path r = ''/'' then 1 else - int (length (path r)))"

text \<open>Conditions on a rule list that the statements below refer to.\<close>

definition nonEmptyPaths :: "RouteConfig list \<Rightarrow> bool" where
  "nonEmptyPaths routes = list_all (\<lambda>r. path r \<noteq> []) routes"

definition nonEmptyTargets :: "RouteConfig list \<Rightarrow> bool" where
  "nonEmptyTargets routes = list_all (\<lambda>r. target r \<noteq> []) routes"

definition oneTargetPerPath :: "RouteConfig list \<Rightarrow> bool" where
  "oneTargetPerPath routes =
     list_all (\<lambda>a. list_all (\<lambda>b. path a = path b \<longrightarrow> target a = target b) routes) routes"

text \<open>
  \<open>ys\<close> arises from \<open>xs\<close> by exchanging rules among the positions that hold paths of
  one and the same length.
\<close>

definition sameLengthPermutation :: "RouteConfig list \<Rightarrow> RouteConfig list \<Rightarrow> bool" where
  "sameLengthPermutation xs ys =
     (mset xs = mset ys \<and> map (\<lambda>r. length (path r)) xs = map (\<lambda>r. length (path r)) ys)"

text \<open>
  \<open>ys\<close> is a reordering of \<open>xs\<close> in which the rules that carry one and the same path
  stay in their order.
\<close>

definition keepsOrderPerPath :: "RouteConfig list \<Rightarrow> RouteConfig list \<Rightarrow> bool" where
  "keepsOrderPerPath xs ys =
     (mset xs = mset ys
      \<and> list_all (\<lambda>q. filter (\<lambda>r. path r = q) xs = filter (\<lambda>r. path r = q) ys) (map path xs))"

section \<open>Reading the configuration (parseNginxConfig, lines 20 to 54)\<close>

text \<open>
  The regular expression of line 26,
  \<^verbatim>\<open>/location\s+([^\s{]+)\s*{[^}]*proxy_pass\s+([^;]+);/g\<close>,
  is a sequence of literals and of greedy repetitions of a character class. \<open>Many n g c\<close>
  repeats class \<open>c\<close> at least \<open>n\<close> times and is a capture group when \<open>g\<close> holds. The
  class \<open>\s\<close> is the white space that \<open>trim\<close> removes.
\<close>

datatype rx = Lit string | Many nat bool "char \<Rightarrow> bool"

definition locationRegex :: "rx list" where
  "locationRegex =
     [Lit ''location'',
      Many 1 False js_whitespace,
      Many 1 True (\<lambda>c. \<not> js_whitespace c \<and> c \<noteq> CHR ''{''),
      Many 0 False js_whitespace,
      Lit ''{'',
      Many 0 False (\<lambda>c. c \<noteq> CHR ''}''),
      Lit ''proxy_pass'',
      Many 1 False js_whitespace,
      Many 1 True (\<lambda>c. c \<noteq> CHR '';''),
      Lit '';'']"

fun firstSome :: "'a option list \<Rightarrow> 'a option" where
  "firstSome [] = None"
| "firstSome (None # xs) = firstSome xs"
| "firstSome (Some x # xs) = Some x"

text \<open>
  A backtracking match anchored at the head of the input. A repetition first takes as many
  characters as the class allows and gives them back one by one while the rest of the
  pattern fails. The result holds the captured groups in order and the input left over.
\<close>

fun rx_match :: "rx list \<Rightarrow> string \<Rightarrow> (string list \<times> string) option" where
  "rx_match [] s = Some ([], s)"
| "rx_match (Lit l # rs) s =
     (if startsWith s l then rx_match rs (drop (length l) s) else None)"
| "rx_match (Many n g c # rs) s =
     firstSome
       (map (\<lambda>k. map_option (\<lambda>(groups, rest). (if g then take k s # groups else groups, rest))
                    (rx_match rs (drop k s)))
            (rev [n ..< Suc (length (takeWhile c s))]))"

text \<open>
  The \<open>while\<close> loop over \<open>locationRegex.exec(configContent)\<close>: with the \<open>g\<close> flag each
  call looks for the leftmost match at or after \<open>lastIndex\<close> and moves \<open>lastIndex\<close>
  behind it. The counter is the number of characters that still belong to the previous
  match; the pattern starts with a literal, so a match is never empty.
\<close>

fun execAll :: "rx list \<Rightarrow> nat \<Rightarrow> string \<Rightarrow> string list list" where
  "execAll pat k [] = []"
| "execAll pat (Suc k) (c # s) = execAll pat k s"
| "execAll pat 0 (c # s) =
     (case rx_match pat (c # s) of
        None \<Rightarrow> execAll pat 0 s
      | Some (groups, rest) \<Rightarrow> groups # execAll pat (length s - length rest) s)"

text \<open>The least lengths of the capture groups of a pattern, in order.\<close>

fun groupMinima :: "rx list \<Rightarrow> nat list" where
  "groupMinima [] = []"
| "groupMinima (Lit l # rs) = groupMinima rs"
| "groupMinima (Many n g c # rs) = (if g then n # groupMinima rs else groupMinima rs)"

text \<open>Lines 30 to 36: \<open>match[1]\<close> is the path, \<open>match[2].trim()\<close> the target.\<close>

fun pushRoute :: "string list \<Rightarrow> RouteConfig list" where
  "pushRoute (m1 # m2 # ms) = [\<lparr>path = m1, target = js_trim m2\<rparr>]"
| "pushRoute ms = []"

text \<open>\<open>fs.readFileSync\<close> throws or returns the content of the file.\<close>

datatype readResult = ReadFails | Content string

definition parseNginxConfig :: "readResult \<Rightarrow> RouteConfig list" where
  "parseNginxConfig f =
     (case f of
        ReadFails \<Rightarrow> []
      | Content configContent \<Rightarrow>
          sortRoutes (concat (map pushRoute (execAll locationRegex 0 configContent))))"

section \<open>Requests, inference and URL parsing\<close>

text \<open>
  Of a request the routing code reads \<open>req.method\<close> and \<open>req.url\<close> (path and query
  string). The headers and the body only enter the prompt.
\<close>

record Request =
  req_method :: string
  req_url :: string

text \<open>
  \<open>await generateText(...)\<close> either throws (the promise is rejected, or building the
  prompt failed) or yields the text of the model.
\<close>

datatype inference = Rejected | Text string

text \<open>The fields of a WHATWG \<open>URL\<close> object that the middleware reads.\<close>

record URL =
  protocol :: string
  host :: string
  pathname :: string
  search :: string

text \<open>
  \<open>new URL(input)\<close> without a base, after the URL Standard: leading and trailing C0
  control or space characters are stripped, ASCII tab and newline are removed, and the
  state machine starts in the scheme start state; when the first character is no ASCII
  letter the parser goes to the no scheme state and fails there for want of a base.
  The states from the scheme state on are the parameter \<open>states\<close>.
\<close>

definition c0_control_or_space :: "char \<Rightarrow> bool" where
  "c0_control_or_space c = ((of_char c :: nat) \<le> 32)"

definition ascii_tab_or_newline :: "char \<Rightarrow> bool" where
  "ascii_tab_or_newline c = (of_char c \<in> {9, 10, 13 :: nat})"

definition ascii_alpha :: "char \<Rightarrow> bool" where
  "ascii_alpha c = (let n = of_char c :: nat in (65 \<le> n \<and> n \<le> 90) \<or> (97 \<le> n \<and> n \<le> 122))"

definition newURL :: "(string \<Rightarrow> URL option) \<Rightarrow> string \<Rightarrow> URL option" where
  "newURL states input =
     (let stripped = rev (dropWhile c0_control_or_space (rev (dropWhile c0_control_or_space input)));
          s = filter (\<lambda>c. \<not> ascii_tab_or_newline c) stripped
      in case s of
           [] \<Rightarrow> None
         | c # cs \<Rightarrow> if ascii_alpha c then states s else None)"

text \<open>No code unit of the string is the no-break space U+00A0.\<close>

definition noNbsp :: "string \<Rightarrow> bool" where
  "noNbsp s = list_all (\<lambda>c. c \<noteq> CHR 0xA0) s"

text \<open>src/index.js, line 75, trims the text of the model before line 82 parses it.\<close>

definition indexTargetUrl :: "(string \<Rightarrow> URL option) \<Rightarrow> string \<Rightarrow> URL option" where
  "indexTargetUrl parseURL answer = parseURL (js_trim answer)"

section \<open>Forwarding and the two routing paths\<close>

text \<open>
  What the surroundings decide for a proxy target: whether \<open>createProxyMiddleware\<close> or the
  call of the proxy throws, and whether the forward ends in the proxy's error event
  (upstream unreachable or timed out).
\<close>

record Env =
  setupThrows :: "string \<Rightarrow> bool"
  forwardErrors :: "string \<Rightarrow> bool"

datatype response =
    PassedOn
  | Upstream string string
  | NoMatchingRoute
  | ProxyError
  | DefaultProxyError

text \<open>
  The status the source itself sets: 404 in line 93, 500 in line 108. The status of an
  upstream answer and of the proxy library's own error handler is not set by the source.
\<close>

fun statusCode :: "response \<Rightarrow> nat option" where
  "statusCode NoMatchingRoute = Some 404"
| "statusCode ProxyError = Some 500"
| "statusCode r = None"

datatype source = Inference | Fallback

text \<open>
  An outcome lists the routing choices the middleware made for a request, in order, each
  with its target and the path it forwards, and the response that ends the request.
\<close>

record Outcome =
  routed :: "(source \<times> string \<times> string) list"
  response :: response

text \<open>
  useRuleBasedFallback, lines 78 to 110. An empty target counts as no target in line 91.
  The proxy is created without an error handler, so a failing forward is answered by the
  proxy library.
\<close>

definition useRuleBasedFallback :: "Env \<Rightarrow> RouteConfig list \<Rightarrow> string \<Rightarrow> Outcome" where
  "useRuleBasedFallback env routes url =
     (case firstMatch routes url of
        None \<Rightarrow> \<lparr>routed = [], response = NoMatchingRoute\<rparr>
      | Some fallbackTarget \<Rightarrow>
          if fallbackTarget = [] then \<lparr>routed = [], response = NoMatchingRoute\<rparr>
          else if setupThrows env fallbackTarget
            then \<lparr>routed = [(Fallback, fallbackTarget, url)], response = ProxyError\<rparr>
          else if forwardErrors env fallbackTarget
            then \<lparr>routed = [(Fallback, fallbackTarget, url)], response = DefaultProxyError\<rparr>
          else \<lparr>routed = [(Fallback, fallbackTarget, url)],
                response = Upstream fallbackTarget url\<rparr>)"

definition after :: "source \<times> string \<times> string \<Rightarrow> Outcome \<Rightarrow> Outcome" where
  "after choice out = out\<lparr>routed := choice # routed out\<rparr>"

text \<open>The choice the middleware makes from a parsed URL, lines 165, 166 and 175.\<close>

definition inferred :: "URL \<Rightarrow> source \<times> string \<times> string" where
  "inferred u = (Inference, protocol u @ ''//'' @ host u, pathname u @ search u)"

text \<open>
  The middleware of lines 113 to 204. \<open>parseURL\<close> stands for \<open>new URL\<close>. A throwing
  \<open>generateText\<close> reaches the outer \<open>catch\<close>, a throwing \<open>new URL\<close> or proxy setup the
  inner one, and a failing forward the \<open>onError\<close> handler of line 180; all three call
  useRuleBasedFallback with the URL of the request.
\<close>

definition llmProxyMiddleware ::
  "Env \<Rightarrow> (string \<Rightarrow> URL option) \<Rightarrow> RouteConfig list \<Rightarrow> Request \<Rightarrow> inference \<Rightarrow> Outcome" where
  "llmProxyMiddleware env parseURL routes req ai =
     (if req_url req = ''/proxy-status'' then \<lparr>routed = [], response = PassedOn\<rparr>
      else
        let url = req_url req in
        case ai of
          Rejected \<Rightarrow> useRuleBasedFallback env routes (req_url req)
        | Text targetUrl \<Rightarrow>
            (case parseURL targetUrl of
               None \<Rightarrow> useRuleBasedFallback env routes url
             | Some targetUrlObj \<Rightarrow>
                 let target = protocol targetUrlObj @ ''//'' @ host targetUrlObj;
                     newPath = pathname targetUrlObj @ search targetUrlObj
                 in if setupThrows env target \<or> forwardErrors env target
                    then after (Inference, target, newPath) (useRuleBasedFallback env routes url)
                    else \<lparr>routed = [(Inference, target, newPath)],
                          response = Upstream target newPath\<rparr>))"

section \<open>The application: status endpoint and request dispatch\<close>

record Server =
  srv_configPath :: string
  srv_routes :: "RouteConfig list"

text \<open>Lines 60 and 61: the routes are loaded once, when the module is evaluated.\<close>

definition startServer :: "string \<Rightarrow> readResult \<Rightarrow> Server" where
  "startServer configPath f = \<lparr>srv_configPath = configPath, srv_routes = parseNginxConfig f\<rparr>"

record StatusBody =
  st_status :: string
  st_sdk :: string
  st_config :: string
  st_routes :: "string list"

text \<open>The handler of \<open>app.get('/proxy-status')\<close>, lines 207 to 214.\<close>

definition statusLine :: "RouteConfig \<Rightarrow> string" where
  "statusLine route = path route @ '' => '' @ target route"

definition proxyStatus :: "Server \<Rightarrow> StatusBody" where
  "proxyStatus srv =
     \<lparr>st_status = ''running'',
      st_sdk = ''Vercel AI SDK with @ai-sdk/anthropic'',
      st_config = srv_configPath srv,
      st_routes = map statusLine (srv_routes srv)\<rparr>"

datatype reply = StatusJson StatusBody | Routed Outcome | ExpressDefault

text \<open>
  One request through the application, once the logging and body parsing middlewares of
  lines 69 to 75 have passed it on. The middleware of line 113 runs before the status
  route; after \<open>next()\<close> the route registered with \<open>app.get\<close> answers GET and HEAD, any
  other method is left to Express. The server state is returned as it was received: no
  handler assigns to \<open>routes\<close>.
\<close>

definition handleRequest ::
  "(string \<Rightarrow> URL option) \<Rightarrow> Server \<Rightarrow> Request \<times> inference \<times> Env \<Rightarrow> reply \<times> Server" where
  "handleRequest parseURL srv arrival =
     (case arrival of (req, ai, env) \<Rightarrow>
        let out = llmProxyMiddleware env parseURL (srv_routes srv) req ai in
        if response out = PassedOn then
          (if req_method req = ''GET'' \<or> req_method req = ''HEAD''
           then (StatusJson (proxyStatus srv), srv)
           else (ExpressDefault, srv))
        else (Routed out, srv))"

fun serve ::
  "(string \<Rightarrow> URL option) \<Rightarrow> Server \<Rightarrow> (Request \<times> inference \<times> Env) list \<Rightarrow> reply list \<times> Server" where
  "serve parseURL srv [] = ([], srv)"
| "serve parseURL srv (arrival # arrivals) =
     (case handleRequest parseURL srv arrival of (r, srv') \<Rightarrow>
        case serve parseURL srv' arrivals of (rs, srv'') \<Rightarrow> (r # rs, srv''))"

section \<open>The deterministic matcher and the routing decision as the specification words them\<close>

datatype decision = Target string string | NoMatch

text \<open>
  Scan the table in order and return the first rule whose prefix is a prefix of the path;
  the result is the target of that rule with the path unmodified, or no matching route.
\<close>

definition DeterministicMatcher :: "RouteConfig list \<Rightarrow> string \<Rightarrow> decision" where
  "DeterministicMatcher table p =
     (case find (\<lambda>rule. prefix (path rule) p) table of
        None \<Rightarrow> NoMatch
      | Some rule \<Rightarrow> Target (target rule) p)"

text \<open>The final routing decision of an outcome: its last choice, if it made one.\<close>

definition finalDecision :: "Outcome \<Rightarrow> decision" where
  "finalDecision out =
     (case rev (routed out) of
        [] \<Rightarrow> NoMatch
      | (src, t, p) # earlier \<Rightarrow> Target t p)"

text \<open>The matcher's decision as line 91 treats it: an empty target counts as no target.\<close>

fun withoutEmptyTarget :: "decision \<Rightarrow> decision" where
  "withoutEmptyTarget NoMatch = NoMatch"
| "withoutEmptyTarget (Target t p) = (if t = [] then NoMatch else Target t p)"

section \<open>Example inputs\<close>

definition readmeRules :: "RouteConfig list" where
  "readmeRules =
     [\<lparr>path = ''/api'', target = ''http://localhost:8001''\<rparr>,
      \<lparr>path = ''/admin'', target = ''http://localhost:8003''\<rparr>,
      \<lparr>path = ''/static'', target = ''http://localhost:8004''\<rparr>,
      \<lparr>path = ''/'', target = ''http://localhost:8002''\<rparr>]"

definition mixedRules :: "RouteConfig list" where
  "mixedRules =
     [\<lparr>path = ''/'', target = ''http://localhost:8002''\<rparr>,
      \<lparr>path = ''/api'', target = ''http://localhost:8001''\<rparr>,
      \<lparr>path = ''/static'', target = ''http://localhost:8004''\<rparr>,
      \<lparr>path = ''/'', target = ''http://localhost:9002''\<rparr>,
      \<lparr>path = ''/api'', target = ''http://localhost:9001''\<rparr>]"

definition apiRules :: "RouteConfig list" where
  "apiRules =
     [\<lparr>path = ''/api'', target = ''http://localhost:8001''\<rparr>,
      \<lparr>path = ''/api'', target = ''http://localhost:9001''\<rparr>]"

definition appRules :: "RouteConfig list" where
  "appRules =
     [\<lparr>path = ''/api'', target = ''http://localhost:8001''\<rparr>,
      \<lparr>path = ''/app'', target = ''http://localhost:8005''\<rparr>,
      \<lparr>path = ''/'', target = ''http://localhost:8002''\<rparr>,
      \<lparr>path = ''/api'', target = ''http://localhost:9001''\<rparr>]"

definition appRulesExchanged :: "RouteConfig list" where
  "appRulesExchanged =
     [\<lparr>path = ''/app'', target = ''http://localhost:8005''\<rparr>,
      \<lparr>path = ''/api'', target = ''http://localhost:8001''\<rparr>,
      \<lparr>path = ''/'', target = ''http://localhost:8002''\<rparr>,
      \<lparr>path = ''/api'', target = ''http://localhost:9001''\<rparr>]"

definition readmeConf :: string where
  "readmeConf = ''http { server { listen 3000; location /api { proxy_pass http://localhost:8001; } location /admin { proxy_pass http://localhost:8003; } location /static { proxy_pass http://localhost:8004; } location / { proxy_pass http://localhost:8002; } } }''"

definition noRuleConf :: string where
  "noRuleConf = ''server { listen 3000; }''"

definition emptyTargetConf :: string where
  "emptyTargetConf = ''location /x { proxy_pass  ; }''"

definition getXY :: Request where
  "getXY = \<lparr>req_method = ''GET'', req_url = ''/x/y''\<rparr>"

definition getUsers :: Request where
  "getUsers = \<lparr>req_method = ''GET'', req_url = ''/api/users''\<rparr>"

definition getAbout :: Request where
  "getAbout = \<lparr>req_method = ''GET'', req_url = ''/about''\<rparr>"

definition getStatus :: Request where
  "getStatus = \<lparr>req_method = ''GET'', req_url = ''/proxy-status''\<rparr>"

definition getStatusVerbose :: Request where
  "getStatusVerbose = \<lparr>req_method = ''GET'', req_url = ''/proxy-status?verbose=1''\<rparr>"

definition allUp :: Env where
  "allUp = \<lparr>setupThrows = (\<lambda>t. False), forwardErrors = (\<lambda>t. False)\<rparr>"

definition down :: "string \<Rightarrow> Env" where
  "down t = \<lparr>setupThrows = (\<lambda>t'. False), forwardErrors = (\<lambda>t'. t' = t)\<rparr>"

text \<open>A parser that knows one text and the URL object it denotes.\<close>

definition parsesOnly :: "string \<Rightarrow> URL \<Rightarrow> string \<Rightarrow> URL option" where
  "parsesOnly known u s = (if s = known then Some u else None)"

definition url9999 :: URL where
  "url9999 = \<lparr>protocol = ''http:'', host = ''localhost:9999'', pathname = ''/api/users'', search = []\<rparr>"

definition url8002 :: URL where
  "url8002 = \<lparr>protocol = ''http:'', host = ''localhost:8002'', pathname = ''/about'', search = []\<rparr>"

definition url8001 :: URL where
  "url8001 = \<lparr>protocol = ''http:'', host = ''localhost:8001'', pathname = ''/api/users'', search = []\<rparr>"

definition newlineAnswer :: string where
  "newlineAnswer = ''http://localhost:8001/api/users'' @ [CHR 0x0A]"

definition nbspAnswer :: string where
  "nbspAnswer = CHR 0xA0 # ''http://localhost:8001/api/users''"

section \<open>Basic facts\<close>

lemma startsWith_prefix: "startsWith s p = prefix p s"
  by (induction s p rule: startsWith.induct) auto

lemma compareRoutes_rank: "compareRoutes a b < 0 \<longleftrightarrow> rank a < rank b"
  by (auto simp: compareRoutes_def rank_def)

section \<open>The sort is a stable sort by rank\<close>

lemma mset_insertLate: "mset (insertLate cmp x ys) = add_mset x (mset ys)"
  by (induction ys) auto

lemma set_insertLate: "set (insertLate cmp x ys) = insert x (set ys)"
  by (induction ys) auto

lemma js_sort_snoc: "js_sort cmp (xs @ [x]) = insertLate cmp x (js_sort cmp xs)"
  by (simp add: js_sort_def)

lemma sorted_insertLate:
  assumes "\<And>a b. (cmp a b < 0) = (f a < f b)" and "sorted (map f ys)"
  shows "sorted (map f (insertLate cmp x ys))"
  using assms(2) by (induction ys) (auto simp: assms(1) set_insertLate)

lemma filter_insertLate:
  assumes "\<And>a b. (cmp a b < 0) = (f a < f b)" and "sorted (map f ys)"
  shows "filter (\<lambda>y. f y = k) (insertLate cmp x ys) =
         filter (\<lambda>y. f y = k) ys @ (if f x = k then [x] else [])"
  using assms(2)
proof (induction ys)
  case Nil
  then show ?case by simp
next
  case (Cons y ys)
  show ?case
  proof (cases "cmp x y < 0")
    case True
    then have lt: "f x < f y" by (simp add: assms(1))
    have "\<forall>z\<in>set (y # ys). f x < f z"
      using Cons.prems lt by auto
    then have "f x = k \<Longrightarrow> filter (\<lambda>y. f y = k) (y # ys) = []"
      by (auto simp: filter_empty_conv)
    with True show ?thesis by auto
  next
    case False
    with Cons show ?thesis by auto
  qed
qed

lemma js_sort_sort_key:
  fixes f :: "'a \<Rightarrow> int"
  assumes "\<And>a b. (cmp a b < 0) = (f a < f b)"
  shows "js_sort cmp xs = sort_key f xs"
proof -
  have "mset (js_sort cmp xs) = mset xs \<and> sorted (map f (js_sort cmp xs)) \<and>
        (\<forall>k. filter (\<lambda>y. f y = k) (js_sort cmp xs) = filter (\<lambda>y. f y = k) xs)"
  proof (induction xs rule: rev_induct)
    case Nil
    then show ?case by (simp add: js_sort_def)
  next
    case (snoc x xs)
    then show ?case
      by (simp add: js_sort_snoc mset_insertLate sorted_insertLate [OF assms]
          filter_insertLate [OF assms])
  qed
  then have m: "mset (js_sort cmp xs) = mset xs"
    and s: "sorted (map f (js_sort cmp xs))"
    and st: "\<And>k. filter (\<lambda>y. f y = k) (js_sort cmp xs) = filter (\<lambda>y. f y = k) xs"
    by blast+
  have "sort_key f xs = js_sort cmp xs"
  proof (rule properties_for_sort_key)
    show "mset (js_sort cmp xs) = mset xs" by (rule m)
    show "sorted (map f (js_sort cmp xs))" by (rule s)
    fix k
    have "(\<lambda>x. f k = f x) = (\<lambda>y. f y = f k)" by auto
    then show "filter (\<lambda>x. f k = f x) (js_sort cmp xs) = filter (\<lambda>x. f k = f x) xs"
      by (simp add: st)
  qed
  then show ?thesis by simp
qed

lemma sortRoutes_sort_key: "sortRoutes xs = sort_key rank xs"
  unfolding sortRoutes_def by (rule js_sort_sort_key) (rule compareRoutes_rank)

lemma rank_root: "rank r = 1 \<longleftrightarrow> path r = ''/''"
  by (simp add: rank_def)

lemma rank_length: "rank r = - int n \<longleftrightarrow> path r \<noteq> ''/'' \<and> length (path r) = n"
  by (auto simp: rank_def)

lemma rank_le_order:
  "rank a \<le> rank b \<Longrightarrow> path b = ''/'' \<or> (path a \<noteq> ''/'' \<and> length (path b) \<le> length (path a))"
  by (auto simp: rank_def split: if_splits)

lemma rank_le_length:
  "rank a \<le> rank b \<Longrightarrow> path a \<noteq> [] \<Longrightarrow> length (path b) \<le> length (path a)"
  by (cases "path a") (auto simp: rank_def split: if_splits)

lemma sorted_rank_sortRoutes: "sorted (map rank (sortRoutes xs))"
  by (simp add: sortRoutes_sort_key)

lemma set_sortRoutes: "set (sortRoutes xs) = set xs"
  by (simp add: sortRoutes_sort_key)

lemma mset_sortRoutes: "mset (sortRoutes xs) = mset xs"
  by (simp add: sortRoutes_sort_key)

lemma sortRoutes_idem: "sortRoutes (sortRoutes xs) = sortRoutes xs"
  by (simp add: sortRoutes_sort_key sort_key_id_if_sorted)

lemma sortRoutes_order:
  "sorted_wrt (\<lambda>a b. path b = ''/'' \<or> (path a \<noteq> ''/'' \<and> length (path b) \<le> length (path a)))
     (sortRoutes xs)"
proof -
  have "sorted_wrt (\<lambda>a b. rank a \<le> rank b) (sortRoutes xs)"
    using sorted_rank_sortRoutes [of xs] by (simp add: sorted_map)
  then show ?thesis
    by (rule sorted_wrt_mono_rel [rotated]) (rule rank_le_order)
qed

lemma sortRoutes_length_order:
  assumes "nonEmptyPaths xs"
  shows "sorted_wrt (\<lambda>a b. length (path b) \<le> length (path a)) (sortRoutes xs)"
proof -
  have ne: "\<And>a. a \<in> set (sortRoutes xs) \<Longrightarrow> path a \<noteq> []"
    using assms by (simp add: nonEmptyPaths_def list_all_iff set_sortRoutes)
  have "sorted_wrt (\<lambda>a b. rank a \<le> rank b) (sortRoutes xs)"
    using sorted_rank_sortRoutes [of xs] by (simp add: sorted_map)
  then show ?thesis
    by (rule sorted_wrt_mono_rel [rotated]) (simp add: rank_le_length ne)
qed

lemma sortRoutes_stable_root:
  "filter (\<lambda>r. path r = ''/'') (sortRoutes xs) = filter (\<lambda>r. path r = ''/'') xs"
  using sort_key_stable [of rank 1 xs] by (simp add: sortRoutes_sort_key rank_root)

lemma sortRoutes_stable_length:
  "filter (\<lambda>r. path r \<noteq> ''/'' \<and> length (path r) = n) (sortRoutes xs) =
   filter (\<lambda>r. path r \<noteq> ''/'' \<and> length (path r) = n) xs"
  using sort_key_stable [of rank "- int n" xs] by (simp add: sortRoutes_sort_key rank_length)

section \<open>First match in a sorted table\<close>

lemma firstMatch_find:
  "firstMatch rs url = map_option target (find (\<lambda>r. startsWith url (path r)) rs)"
  by (induction rs) auto

lemma find_sorted_least:
  fixes f :: "'a \<Rightarrow> int"
  shows "sorted (map f zs) \<Longrightarrow> find P zs = Some r \<Longrightarrow> r' \<in> set zs \<Longrightarrow> P r' \<Longrightarrow> f r \<le> f r'"
  by (induction zs) (auto split: if_splits)

lemma find_Some_set: "find P zs = Some r \<Longrightarrow> r \<in> set zs \<and> P r"
  by (induction zs) (auto split: if_splits)

lemma startsWith_take: "startsWith p a \<Longrightarrow> take (length a) p = a"
  by (auto simp: startsWith_prefix prefix_def)

lemma same_rank_same_path:
  assumes "rank a = rank b" "startsWith p (path a)" "startsWith p (path b)"
  shows "path a = path b"
proof (cases "path a = ''/'' \<or> path b = ''/''")
  case True
  with assms(1) show ?thesis by (auto simp: rank_def split: if_splits)
next
  case False
  with assms(1) have len: "length (path a) = length (path b)"
    by (simp add: rank_def)
  have "path a = take (length (path a)) p"
    by (rule startsWith_take [OF assms(2), symmetric])
  also have "\<dots> = take (length (path b)) p"
    by (simp only: len)
  also have "\<dots> = path b"
    by (rule startsWith_take [OF assms(3)])
  finally show ?thesis .
qed

lemma firstMatch_sortRoutes_None:
  "firstMatch (sortRoutes xs) p = None \<longleftrightarrow> (\<forall>r\<in>set xs. \<not> startsWith p (path r))"
  by (auto simp: firstMatch_find find_None_iff set_sortRoutes)

lemma firstMatch_sortRoutes_Some:
  assumes "firstMatch (sortRoutes xs) p = Some t"
  shows "\<exists>r\<in>set xs. startsWith p (path r) \<and> target r = t
        \<and> (\<forall>r'\<in>set xs. startsWith p (path r') \<longrightarrow> rank r \<le> rank r')"
proof -
  from assms obtain r where Some: "find (\<lambda>r. startsWith p (path r)) (sortRoutes xs) = Some r"
    and t: "target r = t"
    by (auto simp: firstMatch_find)
  from find_Some_set [OF Some] have r: "r \<in> set xs" "startsWith p (path r)"
    by (simp_all add: set_sortRoutes)
  have "\<forall>r'\<in>set xs. startsWith p (path r') \<longrightarrow> rank r \<le> rank r'"
    using find_sorted_least [OF sorted_rank_sortRoutes Some] by (simp add: set_sortRoutes)
  with r t show ?thesis by blast
qed

lemma oneTargetPerPathD:
  "oneTargetPerPath xs \<Longrightarrow> a \<in> set xs \<Longrightarrow> b \<in> set xs \<Longrightarrow> path a = path b \<Longrightarrow> target a = target b"
  unfolding oneTargetPerPath_def list_all_iff by blast

lemma firstMatch_permutation:
  assumes perm: "mset xs = mset ys" and one: "oneTargetPerPath xs"
  shows "firstMatch (sortRoutes xs) p = firstMatch (sortRoutes ys) p"
proof (cases "firstMatch (sortRoutes xs) p")
  case None
  have sets: "set ys = set xs" using perm by (rule mset_eq_setD [symmetric])
  from None have "firstMatch (sortRoutes ys) p = None"
    by (simp only: firstMatch_sortRoutes_None sets)
  with None show ?thesis by simp
next
  case (Some t)
  have sets: "set ys = set xs" using perm by (rule mset_eq_setD [symmetric])
  from firstMatch_sortRoutes_Some [OF Some] obtain a where
    a: "a \<in> set xs" "startsWith p (path a)" "target a = t"
      "\<And>r'. r' \<in> set xs \<Longrightarrow> startsWith p (path r') \<Longrightarrow> rank a \<le> rank r'"
    by blast
  from a(1,2) have "firstMatch (sortRoutes ys) p \<noteq> None"
    by (simp only: firstMatch_sortRoutes_None sets) blast
  then obtain u where u: "firstMatch (sortRoutes ys) p = Some u" by blast
  from firstMatch_sortRoutes_Some [OF u] obtain b where
    b: "b \<in> set xs" "startsWith p (path b)" "target b = u"
      "\<And>r'. r' \<in> set xs \<Longrightarrow> startsWith p (path r') \<Longrightarrow> rank b \<le> rank r'"
    unfolding sets by blast
  have "rank a \<le> rank b" using a(4) b(1,2) by blast
  moreover have "rank b \<le> rank a" using b(4) a(1,2) by blast
  ultimately have "rank a = rank b" by simp
  then have "path a = path b" using a(2) b(2) by (rule same_rank_same_path)
  with one a(1) b(1) have "target a = target b" by (rule oneTargetPerPathD)
  with a(3) b(3) Some u show ?thesis by simp
qed

lemma find_hd_filter:
  assumes "find P zs = Some r" "Q r" "\<And>x. Q x \<Longrightarrow> P x"
  shows "hd (filter Q zs) = r"
  using assms(1)
proof (induction zs)
  case Nil
  then show ?case by simp
next
  case (Cons z zs)
  show ?case
  proof (cases "P z")
    case True
    with Cons.prems have "z = r" by simp
    with assms(2) show ?thesis by simp
  next
    case False
    with assms(3) have "\<not> Q z" by blast
    with False Cons show ?thesis by simp
  qed
qed

lemma rank_path: "path a = path b \<Longrightarrow> rank a = rank b"
  by (simp add: rank_def)

lemma filter_path_sortRoutes:
  "filter (\<lambda>r. path r = q) (sortRoutes xs) = filter (\<lambda>r. path r = q) xs"
proof -
  let ?k = "rank \<lparr>path = q, target = []\<rparr>"
  have e: "(\<lambda>r. rank r = ?k \<and> path r = q) = (\<lambda>r. path r = q)"
    by (auto simp: rank_def)
  have "filter (\<lambda>r. path r = q) (filter (\<lambda>r. rank r = ?k) (sortRoutes xs)) =
        filter (\<lambda>r. path r = q) (filter (\<lambda>r. rank r = ?k) xs)"
    by (simp only: sortRoutes_sort_key sort_key_stable)
  then show ?thesis by (simp only: filter_filter e)
qed

lemma firstMatch_sortRoutes_hd:
  assumes "firstMatch (sortRoutes xs) p = Some t"
  shows "\<exists>r\<in>set xs. startsWith p (path r) \<and> target r = t
        \<and> (\<forall>r'\<in>set xs. startsWith p (path r') \<longrightarrow> rank r \<le> rank r')
        \<and> hd (filter (\<lambda>x. path x = path r) xs) = r"
proof -
  from assms obtain r where Some: "find (\<lambda>r. startsWith p (path r)) (sortRoutes xs) = Some r"
    and t: "target r = t"
    by (auto simp: firstMatch_find)
  from find_Some_set [OF Some] have r: "r \<in> set xs" "startsWith p (path r)"
    by (simp_all add: set_sortRoutes)
  have m: "\<forall>r'\<in>set xs. startsWith p (path r') \<longrightarrow> rank r \<le> rank r'"
    using find_sorted_least [OF sorted_rank_sortRoutes Some] by (simp add: set_sortRoutes)
  have "hd (filter (\<lambda>x. path x = path r) (sortRoutes xs)) = r"
    using Some by (rule find_hd_filter) (simp_all add: r(2))
  then have "hd (filter (\<lambda>x. path x = path r) xs) = r"
    by (simp only: filter_path_sortRoutes)
  with r t m show ?thesis by blast
qed

lemma firstMatch_keepsOrder:
  assumes k: "keepsOrderPerPath xs ys"
  shows "firstMatch (sortRoutes xs) p = firstMatch (sortRoutes ys) p"
proof (cases "firstMatch (sortRoutes xs) p")
  case None
  from k have "mset xs = mset ys" by (simp add: keepsOrderPerPath_def)
  then have sets: "set ys = set xs" by (rule mset_eq_setD [symmetric])
  from None have "firstMatch (sortRoutes ys) p = None"
    by (simp only: firstMatch_sortRoutes_None sets)
  with None show ?thesis by simp
next
  case (Some t)
  from k have "mset xs = mset ys" by (simp add: keepsOrderPerPath_def)
  then have sets: "set ys = set xs" by (rule mset_eq_setD [symmetric])
  from k have same: "\<And>a. a \<in> set xs \<Longrightarrow>
      filter (\<lambda>r. path r = path a) xs = filter (\<lambda>r. path r = path a) ys"
    by (simp add: keepsOrderPerPath_def list_all_iff)
  from firstMatch_sortRoutes_hd [OF Some] obtain a where
    a: "a \<in> set xs" "startsWith p (path a)" "target a = t"
      "\<And>r'. r' \<in> set xs \<Longrightarrow> startsWith p (path r') \<Longrightarrow> rank a \<le> rank r'"
      "hd (filter (\<lambda>x. path x = path a) xs) = a"
    by blast
  from a(1,2) have "firstMatch (sortRoutes ys) p \<noteq> None"
    by (simp only: firstMatch_sortRoutes_None sets) blast
  then obtain u where u: "firstMatch (sortRoutes ys) p = Some u" by blast
  from firstMatch_sortRoutes_hd [OF u] obtain b where
    b: "b \<in> set xs" "startsWith p (path b)" "target b = u"
      "\<And>r'. r' \<in> set xs \<Longrightarrow> startsWith p (path r') \<Longrightarrow> rank b \<le> rank r'"
      "hd (filter (\<lambda>x. path x = path b) ys) = b"
    unfolding sets by blast
  have "rank a \<le> rank b" using a(4) b(1,2) by blast
  moreover have "rank b \<le> rank a" using b(4) a(1,2) by blast
  ultimately have "rank a = rank b" by simp
  then have q: "path a = path b" using a(2) b(2) by (rule same_rank_same_path)
  have "a = hd (filter (\<lambda>x. path x = path a) xs)" by (simp only: a(5))
  also have "\<dots> = hd (filter (\<lambda>x. path x = path a) ys)" by (simp only: same [OF a(1)])
  also have "\<dots> = b" by (simp only: q b(5))
  finally have "a = b" .
  with a(3) b(3) Some u show ?thesis by simp
qed

lemma firstMatch_longest_all:
  assumes ne: "nonEmptyPaths xs" and ex: "\<exists>r\<in>set xs. startsWith p (path r)"
  shows "\<exists>r'\<in>set xs. startsWith p (path r')
           \<and> firstMatch (sortRoutes xs) p = Some (target r')
           \<and> (\<forall>r\<in>set xs. startsWith p (path r) \<longrightarrow> length (path r) \<le> length (path r'))"
proof -
  from ex have "firstMatch (sortRoutes xs) p \<noteq> None"
    by (simp only: firstMatch_sortRoutes_None) blast
  then obtain t where t: "firstMatch (sortRoutes xs) p = Some t" by blast
  from firstMatch_sortRoutes_Some [OF t]
  obtain r' where r': "r' \<in> set xs" "startsWith p (path r')" "target r' = t"
    and least: "\<And>r. r \<in> set xs \<Longrightarrow> startsWith p (path r) \<Longrightarrow> rank r' \<le> rank r"
    by blast
  from ne r'(1) have n: "path r' \<noteq> []" by (simp add: nonEmptyPaths_def list_all_iff)
  have "\<forall>r\<in>set xs. startsWith p (path r) \<longrightarrow> length (path r) \<le> length (path r')"
  proof (intro ballI impI)
    fix r assume "r \<in> set xs" "startsWith p (path r)"
    then have "rank r' \<le> rank r" by (rule least)
    then show "length (path r) \<le> length (path r')" using n by (rule rank_le_length)
  qed
  with r' t show ?thesis by blast
qed

section \<open>Facts about rule extraction\<close>

lemma firstSome_Some: "firstSome xs = Some y \<Longrightarrow> Some y \<in> set xs"
  by (induction xs rule: firstSome.induct) auto

lemma firstSome_None: "firstSome xs = None \<longleftrightarrow> (\<forall>x\<in>set xs. x = None)"
  by (induction xs rule: firstSome.induct) auto

lemma firstSome_map_Some:
  "firstSome (map F ks) = Some y \<Longrightarrow> \<exists>k\<in>set ks. F k = Some y"
proof (induction ks)
  case Nil
  then show ?case by simp
next
  case (Cons a ks)
  then show ?case by (cases "F a") auto
qed

lemma rx_match_Many_Some:
  assumes "rx_match (Many n g c # rs) s = Some (groups, rest)"
  shows "\<exists>k groups'. n \<le> k \<and> k \<le> length (takeWhile c s)
           \<and> rx_match rs (drop k s) = Some (groups', rest)
           \<and> groups = (if g then take k s # groups' else groups')"
proof -
  let ?F = "\<lambda>k. map_option (\<lambda>(groups, rest). (if g then take k s # groups else groups, rest))
                    (rx_match rs (drop k s))"
  from assms have "firstSome (map ?F (rev [n ..< Suc (length (takeWhile c s))])) = Some (groups, rest)"
    by (simp only: rx_match.simps)
  then obtain k where k: "k \<in> set (rev [n ..< Suc (length (takeWhile c s))])"
    and m: "?F k = Some (groups, rest)"
    by (rule firstSome_map_Some [THEN bexE])
  from k have k': "n \<le> k" "k \<le> length (takeWhile c s)" by auto
  from m obtain x where x: "rx_match rs (drop k s) = Some x"
    and y: "(\<lambda>(groups, rest). (if g then take k s # groups else groups, rest)) x = (groups, rest)"
    by (cases "rx_match rs (drop k s)") simp_all
  obtain groups' rest' where p: "x = (groups', rest')" by (cases x)
  with y have "rest' = rest" "groups = (if g then take k s # groups' else groups')"
    by simp_all
  with x p k' show ?thesis by blast
qed

lemma rx_match_groups:
  "rx_match rs s = Some (groups, rest) \<Longrightarrow> list_all2 (\<lambda>g n. n \<le> length g) groups (groupMinima rs)"
proof (induction rs arbitrary: s groups rest)
  case Nil
  then show ?case by simp
next
  case (Cons r rs)
  show ?case
  proof (cases r)
    case (Lit l)
    with Cons.prems have "rx_match rs (drop (length l) s) = Some (groups, rest)"
      by (simp split: if_splits)
    with Cons.IH Lit show ?thesis by simp
  next
    case (Many n g c)
    with Cons.prems rx_match_Many_Some obtain k groups' where
      k: "n \<le> k" "k \<le> length (takeWhile c s)"
      and m: "rx_match rs (drop k s) = Some (groups', rest)"
      and g: "groups = (if g then take k s # groups' else groups')"
      by blast
    have "length (takeWhile c s) \<le> length s" by (rule length_takeWhile_le)
    with k have "n \<le> length (take k s)" by simp
    with Cons.IH [OF m] g Many show ?thesis by simp
  qed
qed

lemma rx_match_rest:
  "rx_match rs s = Some (groups, rest) \<Longrightarrow> \<exists>k\<le>length s. rest = drop k s"
proof (induction rs arbitrary: s groups rest)
  case Nil
  then show ?case by (auto intro: exI [of _ 0])
next
  case (Cons r rs)
  show ?case
  proof (cases r)
    case (Lit l)
    with Cons.prems have p: "startsWith s l" and "rx_match rs (drop (length l) s) = Some (groups, rest)"
      by (simp_all split: if_splits)
    with Cons.IH obtain k where "k \<le> length (drop (length l) s)" "rest = drop k (drop (length l) s)"
      by blast
    moreover from p have "length l \<le> length s"
      by (simp add: startsWith_prefix prefix_length_le)
    ultimately have "k + length l \<le> length s \<and> rest = drop (k + length l) s"
      by simp
    then show ?thesis by blast
  next
    case (Many n g c)
    with Cons.prems rx_match_Many_Some obtain j groups' where
      j: "j \<le> length (takeWhile c s)"
      and m: "rx_match rs (drop j s) = Some (groups', rest)"
      by blast
    from Cons.IH [OF m] obtain k where "k \<le> length (drop j s)" "rest = drop k (drop j s)"
      by blast
    moreover have "length (takeWhile c s) \<le> length s" by (rule length_takeWhile_le)
    ultimately have "k + j \<le> length s \<and> rest = drop (k + j) s"
      using j by simp
    then show ?thesis by blast
  qed
qed

lemma rx_match_Lit_rest:
  assumes "rx_match (Lit l # rs) s = Some (groups, rest)" "l \<noteq> []"
  shows "\<exists>k. 1 \<le> k \<and> k \<le> length s \<and> rest = drop k s"
proof -
  from assms(1) have p: "startsWith s l" and m: "rx_match rs (drop (length l) s) = Some (groups, rest)"
    by (simp_all split: if_splits)
  from rx_match_rest [OF m] obtain k where "k \<le> length (drop (length l) s)" "rest = drop k (drop (length l) s)"
    by blast
  moreover from p have "length l \<le> length s"
    by (simp add: startsWith_prefix prefix_length_le)
  moreover from assms(2) have "1 \<le> length l" by (cases l) simp_all
  ultimately have "1 \<le> k + length l \<and> k + length l \<le> length s \<and> rest = drop (k + length l) s"
    by simp
  then show ?thesis by blast
qed

lemma execAll_skip: "execAll pat k s = execAll pat 0 (drop k s)"
proof (induction k arbitrary: s)
  case 0
  show ?case by simp
next
  case (Suc k)
  show ?case
  proof (cases s)
    case Nil
    then show ?thesis by simp
  next
    case (Cons c cs)
    with Suc [of cs] show ?thesis by simp
  qed
qed

text \<open>The loop as the source writes it: one \<open>exec\<close> per round, continued behind the match.\<close>

lemma execAll_no_match:
  "rx_match pat (c # s) = None \<Longrightarrow> execAll pat 0 (c # s) = execAll pat 0 s"
  by simp

lemma execAll_match:
  assumes "rx_match (Lit l # rs) (c # s) = Some (groups, rest)" "l \<noteq> []"
  shows "execAll (Lit l # rs) 0 (c # s) = groups # execAll (Lit l # rs) 0 rest"
proof -
  from rx_match_Lit_rest [OF assms] obtain k where
    k: "1 \<le> k" "k \<le> length (c # s)" "rest = drop k (c # s)"
    by blast
  then obtain j where j: "k = Suc j" by (cases k) simp_all
  with k have r: "rest = drop j s" and "j \<le> length s" by simp_all
  then have "length s - length rest = j" by simp
  then have "execAll (Lit l # rs) (length s - length rest) s = execAll (Lit l # rs) 0 rest"
    using execAll_skip [of "Lit l # rs" j s] r by simp
  with assms(1) show ?thesis by simp
qed

lemma execAll_locationRegex:
  assumes "rx_match locationRegex (c # s) = Some (groups, rest)"
  shows "execAll locationRegex 0 (c # s) = groups # execAll locationRegex 0 rest"
  using assms unfolding locationRegex_def by (rule execAll_match) simp

lemma execAll_from_match:
  "groups \<in> set (execAll pat k s) \<Longrightarrow> \<exists>s' rest. rx_match pat s' = Some (groups, rest)"
proof (induction pat k s rule: execAll.induct)
  case (1 pat k)
  then show ?case by simp
next
  case (2 pat k c s)
  then show ?case by simp
next
  case (3 pat c s)
  show ?case
  proof (cases "rx_match pat (c # s)")
    case None
    with 3 show ?thesis by simp
  next
    case (Some m)
    obtain g rest where m: "m = (g, rest)" by (cases m)
    with Some 3 show ?thesis by auto
  qed
qed

lemma locationRegex_groups:
  assumes "rx_match locationRegex s = Some (groups, rest)"
  shows "\<exists>m1 m2. groups = [m1, m2] \<and> m1 \<noteq> [] \<and> m2 \<noteq> []"
proof -
  from rx_match_groups [OF assms]
  have "list_all2 (\<lambda>g n. n \<le> length g) groups [1, 1]"
    by (simp add: locationRegex_def)
  then show ?thesis
    by (auto simp: list_all2_Cons2)
qed

lemma pushRoute_path:
  assumes "groups \<in> set (execAll locationRegex k s)" "route \<in> set (pushRoute groups)"
  shows "path route \<noteq> []"
proof -
  from execAll_from_match [OF assms(1)] locationRegex_groups
  obtain m1 m2 where "groups = [m1, m2]" "m1 \<noteq> []" by blast
  with assms(2) show ?thesis by simp
qed

lemma nonEmptyPaths_parseNginxConfig: "nonEmptyPaths (parseNginxConfig f)"
proof (cases f)
  case ReadFails
  then show ?thesis by (simp add: parseNginxConfig_def nonEmptyPaths_def)
next
  case (Content configContent)
  then show ?thesis
    by (auto simp: parseNginxConfig_def nonEmptyPaths_def list_all_iff set_sortRoutes
        dest: pushRoute_path)
qed

lemma sortRoutes_Nil: "sortRoutes [] = []"
  by (simp add: sortRoutes_def js_sort_def)

lemma execAll_noRuleConf: "execAll locationRegex 0 noRuleConf = []"
  by code_simp

lemma parse_readmeConf: "parseNginxConfig (Content readmeConf) = sortRoutes readmeRules"
  by code_simp

lemma parse_emptyTargetConf:
  "parseNginxConfig (Content emptyTargetConf) = [\<lparr>path = ''/x'', target = []\<rparr>]"
  by code_simp

lemma sortRoutes_parseNginxConfig: "sortRoutes (parseNginxConfig f) = parseNginxConfig f"
  by (cases f) (simp_all add: parseNginxConfig_def sortRoutes_idem sortRoutes_Nil)

lemma firstMatch_loaded_longest:
  assumes "\<exists>r\<in>set (parseNginxConfig f). startsWith p (path r)"
  shows "\<exists>r'\<in>set (parseNginxConfig f). startsWith p (path r')
           \<and> firstMatch (parseNginxConfig f) p = Some (target r')
           \<and> (\<forall>r\<in>set (parseNginxConfig f). startsWith p (path r) \<longrightarrow>
                 length (path r) \<le> length (path r'))"
  using firstMatch_longest_all [OF nonEmptyPaths_parseNginxConfig assms]
  by (simp only: sortRoutes_parseNginxConfig)

lemma parseNginxConfig_length_order:
  "sorted_wrt (\<lambda>a b. length (path b) \<le> length (path a)) (parseNginxConfig f)"
  using sortRoutes_length_order [OF nonEmptyPaths_parseNginxConfig, of f]
  by (simp only: sortRoutes_parseNginxConfig)

section \<open>Claims about the route table\<close>

text \<open>
  C6. Sorting a rule list is idempotent and keeps every rule. In the sorted list no other
  rule follows a rule with path \<open>/\<close>, and among the other rules a longer path never
  follows a shorter one; when no path is empty the whole list runs from longer to shorter
  paths. The rules with path \<open>/\<close> keep their configuration order, and so do the other
  rules of any one path length \<open>n\<close>. Nothing is assumed about the list: paths may repeat
  and \<open>/\<close> may occur several times. Every table that parseNginxConfig returns is left
  unchanged by sorting it again and runs from longer to shorter paths.
\<close>

theorem sortRoutes_idempotent_ordered_stable:
  "sortRoutes (sortRoutes xs) = sortRoutes xs
   \<and> mset (sortRoutes xs) = mset xs
   \<and> sorted_wrt (\<lambda>a b. path b = ''/'' \<or> (path a \<noteq> ''/'' \<and> length (path b) \<le> length (path a)))
        (sortRoutes xs)
   \<and> (nonEmptyPaths xs \<longrightarrow>
        sorted_wrt (\<lambda>a b. length (path b) \<le> length (path a)) (sortRoutes xs))
   \<and> filter (\<lambda>r. path r = ''/'') (sortRoutes xs) = filter (\<lambda>r. path r = ''/'') xs
   \<and> filter (\<lambda>r. path r \<noteq> ''/'' \<and> length (path r) = n) (sortRoutes xs) =
       filter (\<lambda>r. path r \<noteq> ''/'' \<and> length (path r) = n) xs
   \<and> sortRoutes (parseNginxConfig f) = parseNginxConfig f
   \<and> sorted_wrt (\<lambda>a b. length (path b) \<le> length (path a)) (parseNginxConfig f)"
proof (intro conjI impI)
  show "sortRoutes (sortRoutes xs) = sortRoutes xs" by (rule sortRoutes_idem)
  show "mset (sortRoutes xs) = mset xs" by (rule mset_sortRoutes)
  show "sorted_wrt (\<lambda>a b. path b = ''/'' \<or> (path a \<noteq> ''/'' \<and> length (path b) \<le> length (path a)))
        (sortRoutes xs)" by (rule sortRoutes_order)
  show "sorted_wrt (\<lambda>a b. length (path b) \<le> length (path a)) (sortRoutes xs)"
    if "nonEmptyPaths xs" using that by (rule sortRoutes_length_order)
  show "filter (\<lambda>r. path r = ''/'') (sortRoutes xs) = filter (\<lambda>r. path r = ''/'') xs"
    by (rule sortRoutes_stable_root)
  show "filter (\<lambda>r. path r \<noteq> ''/'' \<and> length (path r) = n) (sortRoutes xs) =
       filter (\<lambda>r. path r \<noteq> ''/'' \<and> length (path r) = n) xs"
    by (rule sortRoutes_stable_length)
  show "sortRoutes (parseNginxConfig f) = parseNginxConfig f"
    by (rule sortRoutes_parseNginxConfig)
  show "sorted_wrt (\<lambda>a b. length (path b) \<le> length (path a)) (parseNginxConfig f)"
    by (rule parseNginxConfig_length_order)
qed

text \<open>
  The sorted order of a list with two root rules and a repeated path, and the instance of
  the theorem at that list with \<open>n = 4\<close>.
\<close>

lemma sortRoutes_mixedRules:
  "sortRoutes mixedRules =
     [\<lparr>path = ''/static'', target = ''http://localhost:8004''\<rparr>,
      \<lparr>path = ''/api'', target = ''http://localhost:8001''\<rparr>,
      \<lparr>path = ''/api'', target = ''http://localhost:9001''\<rparr>,
      \<lparr>path = ''/'', target = ''http://localhost:8002''\<rparr>,
      \<lparr>path = ''/'', target = ''http://localhost:9002''\<rparr>]"
  by (simp add: mixedRules_def sortRoutes_def js_sort_def compareRoutes_def)

theorem sortRoutes_witness:
  "nonEmptyPaths mixedRules
   \<and> sortRoutes (sortRoutes mixedRules) = sortRoutes mixedRules
   \<and> mset (sortRoutes mixedRules) = mset mixedRules
   \<and> sorted_wrt (\<lambda>a b. path b = ''/'' \<or> (path a \<noteq> ''/'' \<and> length (path b) \<le> length (path a)))
        (sortRoutes mixedRules)
   \<and> sorted_wrt (\<lambda>a b. length (path b) \<le> length (path a)) (sortRoutes mixedRules)
   \<and> filter (\<lambda>r. path r = ''/'') (sortRoutes mixedRules) = filter (\<lambda>r. path r = ''/'') mixedRules
   \<and> filter (\<lambda>r. path r \<noteq> ''/'' \<and> length (path r) = 4) (sortRoutes mixedRules) =
       filter (\<lambda>r. path r \<noteq> ''/'' \<and> length (path r) = 4) mixedRules
   \<and> sortRoutes (parseNginxConfig (Content readmeConf)) = parseNginxConfig (Content readmeConf)
   \<and> sorted_wrt (\<lambda>a b. length (path b) \<le> length (path a)) (parseNginxConfig (Content readmeConf))"
proof -
  have ne: "nonEmptyPaths mixedRules"
    by (simp add: mixedRules_def nonEmptyPaths_def)
  from sortRoutes_idempotent_ordered_stable [of mixedRules 4 "Content readmeConf"] ne
  show ?thesis by blast
qed

text \<open>
  C3, as stated, fails: two rules with the same path \<open>/api\<close> and different targets have
  paths of equal length, and exchanging them changes the target chosen for \<open>/api/users\<close>,
  because the sort is stable and the first match wins.
\<close>

theorem equal_length_permutation_counterexample:
  "sameLengthPermutation apiRules (rev apiRules)
   \<and> firstMatch (sortRoutes apiRules) ''/api/users'' = Some ''http://localhost:8001''
   \<and> firstMatch (sortRoutes (rev apiRules)) ''/api/users'' = Some ''http://localhost:9001''"
  by (simp add: sameLengthPermutation_def apiRules_def sortRoutes_def js_sort_def compareRoutes_def)

text \<open>
  C3, amended. The target chosen for a path \<open>p\<close> is the same for every reordering of the
  configuration that keeps the rules with one and the same path in their order, among
  rules of equal path length or not; it is the same for every reordering at all when
  rules that share a path share their target. When no
  configured path is empty and some rule matches \<open>p\<close>, the chosen target belongs to a
  matching rule whose path is at least as long as that of every matching rule; this holds
  for every table that parseNginxConfig returns, since the regular expression captures no
  empty path. The match is the plain prefix test: \<open>/admin2\<close> matches the rule \<open>/admin\<close>.
\<close>

theorem firstMatch_sorted_table:
  "(keepsOrderPerPath xs ys \<longrightarrow> firstMatch (sortRoutes xs) p = firstMatch (sortRoutes ys) p)
   \<and> (mset xs = mset ys \<and> oneTargetPerPath xs \<longrightarrow>
        firstMatch (sortRoutes xs) p = firstMatch (sortRoutes ys) p)
   \<and> (nonEmptyPaths xs \<and> (\<exists>r\<in>set xs. startsWith p (path r)) \<longrightarrow>
        (\<exists>r'\<in>set xs. startsWith p (path r')
           \<and> firstMatch (sortRoutes xs) p = Some (target r')
           \<and> (\<forall>r\<in>set xs. startsWith p (path r) \<longrightarrow> length (path r) \<le> length (path r'))))
   \<and> ((\<exists>r\<in>set (parseNginxConfig f). startsWith p (path r)) \<longrightarrow>
        (\<exists>r'\<in>set (parseNginxConfig f). startsWith p (path r')
           \<and> firstMatch (parseNginxConfig f) p = Some (target r')
           \<and> (\<forall>r\<in>set (parseNginxConfig f). startsWith p (path r) \<longrightarrow>
                 length (path r) \<le> length (path r'))))
   \<and> firstMatch (sortRoutes [\<lparr>path = ''/admin'', target = t\<rparr>]) ''/admin2'' = Some t"
proof (intro conjI impI)
  show "firstMatch (sortRoutes xs) p = firstMatch (sortRoutes ys) p"
    if "keepsOrderPerPath xs ys"
    using that by (rule firstMatch_keepsOrder)
  show "firstMatch (sortRoutes xs) p = firstMatch (sortRoutes ys) p"
    if "mset xs = mset ys \<and> oneTargetPerPath xs"
    using that by (simp add: firstMatch_permutation)
  show "\<exists>r'\<in>set xs. startsWith p (path r')
           \<and> firstMatch (sortRoutes xs) p = Some (target r')
           \<and> (\<forall>r\<in>set xs. startsWith p (path r) \<longrightarrow> length (path r) \<le> length (path r'))"
    if "nonEmptyPaths xs \<and> (\<exists>r\<in>set xs. startsWith p (path r))"
    using that by (simp add: firstMatch_longest_all)
  show "\<exists>r'\<in>set (parseNginxConfig f). startsWith p (path r')
           \<and> firstMatch (parseNginxConfig f) p = Some (target r')
           \<and> (\<forall>r\<in>set (parseNginxConfig f). startsWith p (path r) \<longrightarrow>
                 length (path r) \<le> length (path r'))"
    if "\<exists>r\<in>set (parseNginxConfig f). startsWith p (path r)"
    using that by (rule firstMatch_loaded_longest)
  show "firstMatch (sortRoutes [\<lparr>path = ''/admin'', target = t\<rparr>]) ''/admin2'' = Some t"
    by (simp add: sortRoutes_def js_sort_def)
qed

theorem firstMatch_sorted_table_witness:
  "keepsOrderPerPath appRules appRulesExchanged
   \<and> sameLengthPermutation appRules appRulesExchanged
   \<and> firstMatch (sortRoutes appRules) ''/api/users'' =
       firstMatch (sortRoutes appRulesExchanged) ''/api/users''
   \<and> mset readmeRules = mset (rev readmeRules) \<and> oneTargetPerPath readmeRules
   \<and> firstMatch (sortRoutes readmeRules) ''/api/users'' =
       firstMatch (sortRoutes (rev readmeRules)) ''/api/users''
   \<and> nonEmptyPaths readmeRules
   \<and> (\<exists>r\<in>set readmeRules. startsWith ''/api/users'' (path r))
   \<and> (\<exists>r'\<in>set readmeRules. startsWith ''/api/users'' (path r')
           \<and> firstMatch (sortRoutes readmeRules) ''/api/users'' = Some (target r')
           \<and> list_all (\<lambda>r. startsWith ''/api/users'' (path r) \<longrightarrow> length (path r) \<le> length (path r'))
                readmeRules)
   \<and> firstMatch (sortRoutes readmeRules) ''/api/users'' = Some ''http://localhost:8001''
   \<and> (\<exists>r\<in>set (parseNginxConfig (Content readmeConf)). startsWith ''/api/users'' (path r))
   \<and> (\<exists>r'\<in>set (parseNginxConfig (Content readmeConf)). startsWith ''/api/users'' (path r')
           \<and> firstMatch (parseNginxConfig (Content readmeConf)) ''/api/users'' = Some (target r')
           \<and> list_all (\<lambda>r. startsWith ''/api/users'' (path r) \<longrightarrow> length (path r) \<le> length (path r'))
                (parseNginxConfig (Content readmeConf)))
   \<and> firstMatch (sortRoutes [\<lparr>path = ''/admin'', target = ''http://localhost:8003''\<rparr>]) ''/admin2''
       = Some ''http://localhost:8003''"
proof -
  have h0: "keepsOrderPerPath appRules appRulesExchanged"
    by (simp add: keepsOrderPerPath_def appRules_def appRulesExchanged_def)
  have h0': "sameLengthPermutation appRules appRulesExchanged"
    by (simp add: sameLengthPermutation_def appRules_def appRulesExchanged_def)
  have h1: "mset readmeRules = mset (rev readmeRules)" by simp
  have h2: "oneTargetPerPath readmeRules"
    by (simp add: readmeRules_def oneTargetPerPath_def)
  have h3: "nonEmptyPaths readmeRules"
    by (simp add: readmeRules_def nonEmptyPaths_def)
  have h4: "\<exists>r\<in>set readmeRules. startsWith ''/api/users'' (path r)"
    by (simp add: readmeRules_def)
  have h5: "\<exists>r\<in>set (parseNginxConfig (Content readmeConf)). startsWith ''/api/users'' (path r)"
    using h4 by (simp only: parse_readmeConf set_sortRoutes)
  have v: "firstMatch (sortRoutes readmeRules) ''/api/users'' = Some ''http://localhost:8001''"
    by (simp add: readmeRules_def sortRoutes_def js_sort_def compareRoutes_def)
  from firstMatch_sorted_table [of appRules appRulesExchanged "''/api/users''"] h0
  have a: "firstMatch (sortRoutes appRules) ''/api/users'' =
       firstMatch (sortRoutes appRulesExchanged) ''/api/users''"
    by blast
  note inst = firstMatch_sorted_table
    [of readmeRules "rev readmeRules" "''/api/users''" "Content readmeConf"
      "''http://localhost:8003''"]
  from inst h1 h2 have b: "firstMatch (sortRoutes readmeRules) ''/api/users'' =
       firstMatch (sortRoutes (rev readmeRules)) ''/api/users''"
    by blast
  from inst h3 h4 have "\<exists>r'\<in>set readmeRules. startsWith ''/api/users'' (path r')
           \<and> firstMatch (sortRoutes readmeRules) ''/api/users'' = Some (target r')
           \<and> (\<forall>r\<in>set readmeRules. startsWith ''/api/users'' (path r) \<longrightarrow> length (path r) \<le> length (path r'))"
    by blast
  then have c: "\<exists>r'\<in>set readmeRules. startsWith ''/api/users'' (path r')
           \<and> firstMatch (sortRoutes readmeRules) ''/api/users'' = Some (target r')
           \<and> list_all (\<lambda>r. startsWith ''/api/users'' (path r) \<longrightarrow> length (path r) \<le> length (path r'))
                readmeRules"
    by (simp only: list_all_iff)
  from inst h5 have "\<exists>r'\<in>set (parseNginxConfig (Content readmeConf)). startsWith ''/api/users'' (path r')
           \<and> firstMatch (parseNginxConfig (Content readmeConf)) ''/api/users'' = Some (target r')
           \<and> (\<forall>r\<in>set (parseNginxConfig (Content readmeConf)). startsWith ''/api/users'' (path r) \<longrightarrow>
                 length (path r) \<le> length (path r'))"
    by blast
  then have e: "\<exists>r'\<in>set (parseNginxConfig (Content readmeConf)). startsWith ''/api/users'' (path r')
           \<and> firstMatch (parseNginxConfig (Content readmeConf)) ''/api/users'' = Some (target r')
           \<and> list_all (\<lambda>r. startsWith ''/api/users'' (path r) \<longrightarrow> length (path r) \<le> length (path r'))
                (parseNginxConfig (Content readmeConf))"
    by (simp only: list_all_iff)
  from inst have d: "firstMatch (sortRoutes [\<lparr>path = ''/admin'', target = ''http://localhost:8003''\<rparr>]) ''/admin2''
       = Some ''http://localhost:8003''"
    by blast
  show ?thesis
    by (intro conjI) (rule h0 h0' a h1 h2 b h3 h4 c v h5 e d)+
qed

section \<open>Facts about the routing paths and the application\<close>

lemma firstMatch_prefix_find:
  "firstMatch rs url = map_option target (find (\<lambda>rule. prefix (path rule) url) rs)"
  by (induction rs) (auto simp: startsWith_prefix)

lemma routed_useRuleBasedFallback:
  "routed (useRuleBasedFallback env routes url) =
     (case firstMatch routes url of
        None \<Rightarrow> []
      | Some t \<Rightarrow> if t = [] then [] else [(Fallback, t, url)])"
  by (simp add: useRuleBasedFallback_def split: option.split)

lemma finalDecision_useRuleBasedFallback:
  assumes "nonEmptyTargets routes"
  shows "finalDecision (useRuleBasedFallback env routes url) = DeterministicMatcher routes url"
proof (cases "find (\<lambda>rule. prefix (path rule) url) routes")
  case None
  then show ?thesis
    by (simp add: finalDecision_def routed_useRuleBasedFallback firstMatch_prefix_find
        DeterministicMatcher_def)
next
  case (Some r)
  then have "r \<in> set routes" by (simp add: find_Some_set)
  with assms have "target r \<noteq> []"
    by (simp add: nonEmptyTargets_def list_all_iff)
  with Some show ?thesis
    by (simp add: finalDecision_def routed_useRuleBasedFallback firstMatch_prefix_find
        DeterministicMatcher_def)
qed

lemma response_useRuleBasedFallback_404:
  assumes "nonEmptyTargets routes"
  shows "response (useRuleBasedFallback env routes url) = NoMatchingRoute
         \<longleftrightarrow> DeterministicMatcher routes url = NoMatch"
proof (cases "find (\<lambda>rule. prefix (path rule) url) routes")
  case None
  then show ?thesis
    by (simp add: useRuleBasedFallback_def firstMatch_prefix_find DeterministicMatcher_def)
next
  case (Some r)
  then have "r \<in> set routes" by (simp add: find_Some_set)
  with assms have "target r \<noteq> []"
    by (simp add: nonEmptyTargets_def list_all_iff)
  with Some show ?thesis
    by (simp add: useRuleBasedFallback_def firstMatch_prefix_find DeterministicMatcher_def)
qed

lemma finalDecision_fallback_general:
  "finalDecision (useRuleBasedFallback env routes url) =
     withoutEmptyTarget (DeterministicMatcher routes url)"
proof (cases "find (\<lambda>rule. prefix (path rule) url) routes")
  case None
  then show ?thesis
    by (simp add: finalDecision_def routed_useRuleBasedFallback firstMatch_prefix_find
        DeterministicMatcher_def)
next
  case (Some r)
  then show ?thesis
    by (simp add: finalDecision_def routed_useRuleBasedFallback firstMatch_prefix_find
        DeterministicMatcher_def)
qed

lemma response_fallback_general:
  "response (useRuleBasedFallback env routes url) = NoMatchingRoute
   \<longleftrightarrow> withoutEmptyTarget (DeterministicMatcher routes url) = NoMatch"
proof (cases "find (\<lambda>rule. prefix (path rule) url) routes")
  case None
  then show ?thesis
    by (simp add: useRuleBasedFallback_def firstMatch_prefix_find DeterministicMatcher_def)
next
  case (Some r)
  then show ?thesis
    by (simp add: useRuleBasedFallback_def firstMatch_prefix_find DeterministicMatcher_def)
qed

lemma llm_malformed:
  assumes "req_url req \<noteq> ''/proxy-status''" "parseURL answer = None"
  shows "llmProxyMiddleware env parseURL routes req (Text answer) =
         useRuleBasedFallback env routes (req_url req)"
  using assms by (simp add: llmProxyMiddleware_def)

lemma llm_accepted:
  assumes "req_url req \<noteq> ''/proxy-status''" "parseURL answer = Some u"
  shows "llmProxyMiddleware env parseURL routes req (Text answer) =
     (if setupThrows env (protocol u @ ''//'' @ host u) \<or> forwardErrors env (protocol u @ ''//'' @ host u)
      then after (inferred u) (useRuleBasedFallback env routes (req_url req))
      else \<lparr>routed = [inferred u],
            response = Upstream (protocol u @ ''//'' @ host u) (pathname u @ search u)\<rparr>)"
  using assms by (simp add: llmProxyMiddleware_def inferred_def Let_def)

lemma length_routed_fallback: "length (routed (useRuleBasedFallback env routes url)) \<le> 1"
  by (simp add: routed_useRuleBasedFallback split: option.split)

lemma length_routed_llm:
  "length (routed (llmProxyMiddleware env parseURL routes req ai)) \<le> 2"
  using length_routed_fallback [of env routes "req_url req"]
  by (simp add: llmProxyMiddleware_def Let_def after_def split: inference.split option.split)

lemma statusCode_fallback:
  "statusCode (response (useRuleBasedFallback env routes url)) \<noteq> Some 502"
  by (simp add: useRuleBasedFallback_def split: option.split)

lemma statusCode_llm:
  "statusCode (response (llmProxyMiddleware env parseURL routes req ai)) \<noteq> Some 502"
  using statusCode_fallback [of env routes "req_url req"]
  by (simp add: llmProxyMiddleware_def Let_def after_def split: inference.split option.split)

lemma response_after: "response (after c out) = response out"
  by (simp add: after_def)

lemma fallback_not_PassedOn: "response (useRuleBasedFallback env routes url) \<noteq> PassedOn"
  by (simp add: useRuleBasedFallback_def split: option.split)

lemma llm_PassedOn_iff:
  "response (llmProxyMiddleware env parseURL routes req ai) = PassedOn
   \<longleftrightarrow> req_url req = ''/proxy-status''"
  using fallback_not_PassedOn [of env routes "req_url req"]
  by (simp add: llmProxyMiddleware_def Let_def response_after split: inference.split option.split)

lemma handleRequest_routed:
  "req_url req \<noteq> ''/proxy-status'' \<Longrightarrow>
   handleRequest parseURL srv (req, ai, env) =
     (Routed (llmProxyMiddleware env parseURL (srv_routes srv) req ai), srv)"
  by (simp add: handleRequest_def Let_def llm_PassedOn_iff)

lemma handleRequest_status:
  "req_url req = ''/proxy-status'' \<Longrightarrow>
   handleRequest parseURL srv (req, ai, env) =
     (if req_method req = ''GET'' \<or> req_method req = ''HEAD''
      then StatusJson (proxyStatus srv) else ExpressDefault, srv)"
  by (simp add: handleRequest_def Let_def llm_PassedOn_iff)

lemma handleRequest_state: "snd (handleRequest parseURL srv arrival) = srv"
  by (cases arrival) (simp add: handleRequest_def Let_def)

lemma handleRequest_StatusJson:
  "fst (handleRequest parseURL srv arrival) = StatusJson b \<Longrightarrow> b = proxyStatus srv"
  by (cases arrival) (simp add: handleRequest_def Let_def split: if_splits)

lemma serve_state: "snd (serve parseURL srv arrivals) = srv"
proof (induction arrivals)
  case Nil
  show ?case by simp
next
  case (Cons a arrivals)
  obtain r srv' where h: "handleRequest parseURL srv a = (r, srv')"
    by (cases "handleRequest parseURL srv a")
  with handleRequest_state [of parseURL srv a] have "srv' = srv" by simp
  with h Cons show ?case by (auto split: prod.split)
qed

lemma serve_StatusJson:
  "StatusJson b \<in> set (fst (serve parseURL srv arrivals)) \<Longrightarrow> b = proxyStatus srv"
proof (induction arrivals)
  case Nil
  then show ?case by simp
next
  case (Cons a arrivals)
  obtain r srv' where h: "handleRequest parseURL srv a = (r, srv')"
    by (cases "handleRequest parseURL srv a")
  with handleRequest_state [of parseURL srv a] have s: "srv' = srv" by simp
  from h handleRequest_StatusJson [of parseURL srv a b]
  have r: "r = StatusJson b \<Longrightarrow> b = proxyStatus srv" by simp
  from Cons.prems h s have "r = StatusJson b \<or> StatusJson b \<in> set (fst (serve parseURL srv arrivals))"
    by (auto split: prod.splits)
  with r Cons.IH show ?case by blast
qed

lemma sortRoutes_readmeRules:
  "sortRoutes readmeRules =
     [\<lparr>path = ''/static'', target = ''http://localhost:8004''\<rparr>,
      \<lparr>path = ''/admin'', target = ''http://localhost:8003''\<rparr>,
      \<lparr>path = ''/api'', target = ''http://localhost:8001''\<rparr>,
      \<lparr>path = ''/'', target = ''http://localhost:8002''\<rparr>]"
  by (simp add: readmeRules_def sortRoutes_def js_sort_def compareRoutes_def)

lemma dropWhile_dropWhile_weaker:
  assumes "\<And>x. x \<in> set xs \<Longrightarrow> P x \<Longrightarrow> Q x"
  shows "dropWhile Q (dropWhile P xs) = dropWhile Q xs"
  using assms by (induction xs) auto

lemma strip_append_tail:
  assumes "\<And>x. x \<in> set t \<Longrightarrow> Q x"
  shows "rev (dropWhile Q (rev (dropWhile Q (b @ t)))) = rev (dropWhile Q (rev (dropWhile Q b)))"
proof (cases "\<forall>x\<in>set b. Q x")
  case True
  with assms have e: "dropWhile Q (b @ t) = []" "dropWhile Q b = []"
    by (auto simp: dropWhile_eq_Nil_conv)
  show ?thesis unfolding e by simp
next
  case False
  then obtain x where "x \<in> set b" "\<not> Q x" by blast
  then have "dropWhile Q (b @ t) = dropWhile Q b @ t"
    by (rule dropWhile_append1)
  moreover have "dropWhile Q (rev t @ rev (dropWhile Q b)) = dropWhile Q (rev (dropWhile Q b))"
    by (rule dropWhile_append2) (simp add: assms)
  ultimately show ?thesis by simp
qed

lemma strip_js_trim:
  assumes "\<And>c. c \<in> set s \<Longrightarrow> js_whitespace c \<Longrightarrow> c0_control_or_space c"
  shows "rev (dropWhile c0_control_or_space (rev (dropWhile c0_control_or_space (js_trim s)))) =
         rev (dropWhile c0_control_or_space (rev (dropWhile c0_control_or_space s)))"
proof -
  let ?a = "dropWhile js_whitespace s"
  let ?b = "rev (dropWhile js_whitespace (rev ?a))"
  let ?t = "rev (takeWhile js_whitespace (rev ?a))"
  have sub: "set ?a \<subseteq> set s" by (auto dest: set_dropWhileD)
  have a: "?a = ?b @ ?t"
    by (metis rev_append rev_rev_ident takeWhile_dropWhile_id)
  have t: "c0_control_or_space x" if "x \<in> set ?t" for x
  proof -
    from that have "x \<in> set (takeWhile js_whitespace (rev ?a))" by simp
    then have "js_whitespace x" "x \<in> set ?a"
      by (auto dest: set_takeWhileD)
    with sub assms show ?thesis by blast
  qed
  have "rev (dropWhile c0_control_or_space (rev (dropWhile c0_control_or_space ?b))) =
        rev (dropWhile c0_control_or_space (rev (dropWhile c0_control_or_space (?b @ ?t))))"
    by (rule strip_append_tail [symmetric]) (rule t)
  also have "\<dots> = rev (dropWhile c0_control_or_space (rev (dropWhile c0_control_or_space ?a)))"
    using a by simp
  also have "dropWhile c0_control_or_space ?a = dropWhile c0_control_or_space s"
    by (rule dropWhile_dropWhile_weaker) (rule assms)
  finally show ?thesis by (simp add: js_trim_def)
qed

lemma newURL_js_trim:
  assumes "\<And>c. c \<in> set s \<Longrightarrow> js_whitespace c \<Longrightarrow> c0_control_or_space c"
  shows "newURL states (js_trim s) = newURL states s"
  unfolding newURL_def by (simp only: strip_js_trim [OF assms])

lemma js_whitespace_nbsp:
  assumes "js_whitespace c" "c \<noteq> CHR 0xA0"
  shows "c0_control_or_space c"
proof -
  have "of_char c \<noteq> (160 :: nat)"
  proof
    assume "of_char c = (160 :: nat)"
    then have "(of_char c :: nat) = of_char (CHR 0xA0)" by simp
    then have "c = CHR 0xA0" by (simp only: of_char_eq_iff)
    with assms(2) show False by simp
  qed
  with assms(1) show ?thesis
    by (auto simp: js_whitespace_def c0_control_or_space_def)
qed

lemma newURL_js_trim_noNbsp: "noNbsp s \<Longrightarrow> newURL states (js_trim s) = newURL states s"
  by (rule newURL_js_trim) (auto simp: noNbsp_def list_all_iff intro: js_whitespace_nbsp)

lemma js_trim_nbspAnswer: "js_trim nbspAnswer = ''http://localhost:8001/api/users''"
  by (simp add: nbspAnswer_def js_trim_def js_whitespace_def)

lemma newURL_nbspAnswer: "newURL states nbspAnswer = None"
  by (simp add: nbspAnswer_def newURL_def c0_control_or_space_def ascii_tab_or_newline_def
      ascii_alpha_def)

lemma newURL_plain: "newURL states ''http://localhost:8001/api/users'' = states ''http://localhost:8001/api/users''"
  by (simp add: newURL_def c0_control_or_space_def ascii_tab_or_newline_def ascii_alpha_def)

lemma fallback_empty_table:
  "useRuleBasedFallback env [] url = \<lparr>routed = [], response = NoMatchingRoute\<rparr>"
  by (simp add: useRuleBasedFallback_def)

lemma llm_empty_table:
  assumes "req_url req \<noteq> ''/proxy-status''"
  shows "response (llmProxyMiddleware env parseURL [] req ai) = NoMatchingRoute
         \<or> (\<exists>answer u. ai = Text answer \<and> parseURL answer = Some u
               \<and> llmProxyMiddleware env parseURL [] req ai =
                   \<lparr>routed = [inferred u],
                    response = Upstream (protocol u @ ''//'' @ host u) (pathname u @ search u)\<rparr>)"
proof (cases ai)
  case Rejected
  with assms show ?thesis
    by (simp add: llmProxyMiddleware_def fallback_empty_table)
next
  case (Text answer)
  show ?thesis
  proof (cases "parseURL answer")
    case None
    with Text assms show ?thesis
      by (simp add: llm_malformed fallback_empty_table)
  next
    case (Some u)
    with Text assms show ?thesis
      by (simp add: llm_accepted fallback_empty_table response_after)
  qed
qed

section \<open>Claims about the routing decision\<close>

text \<open>
  C1, as stated, fails: the configuration \<open>location /x { proxy_pass  ; }\<close> loads a rule
  with path \<open>/x\<close> and the empty target, since the second group of the expression takes
  one of the two spaces and \<open>trim\<close> removes it. For \<open>/x/y\<close> and a text of the model that
  does not parse, line 91 takes the empty target for no target and answers 404 with no
  routing choice, while the deterministic matcher returns the matched rule: the empty
  target with the path \<open>/x/y\<close>.
\<close>

theorem malformed_inference_counterexample:
  "parseNginxConfig (Content emptyTargetConf) = [\<lparr>path = ''/x'', target = []\<rparr>]
   \<and> req_url getXY \<noteq> ''/proxy-status''
   \<and> newURL (\<lambda>s. None) ''<http://localhost:8001/x/y>'' = None
   \<and> llmProxyMiddleware allUp (newURL (\<lambda>s. None)) (parseNginxConfig (Content emptyTargetConf))
         getXY (Text ''<http://localhost:8001/x/y>'') =
       \<lparr>routed = [], response = NoMatchingRoute\<rparr>
   \<and> finalDecision (llmProxyMiddleware allUp (newURL (\<lambda>s. None))
         (parseNginxConfig (Content emptyTargetConf)) getXY (Text ''<http://localhost:8001/x/y>''))
       = NoMatch
   \<and> DeterministicMatcher (parseNginxConfig (Content emptyTargetConf)) (req_url getXY) =
       Target [] ''/x/y''"
  by (simp add: parse_emptyTargetConf getXY_def newURL_def c0_control_or_space_def
      ascii_tab_or_newline_def ascii_alpha_def llmProxyMiddleware_def Let_def
      useRuleBasedFallback_def finalDecision_def DeterministicMatcher_def)

text \<open>
  C1, amended. For a request that is not the status request: when the text of the model
  does not parse as a URL, the middleware does exactly what useRuleBasedFallback does for
  the URL of the request. Its final decision (target and forwarded path, or no match) is
  the decision of the deterministic matcher as the specification words it, applied to
  that URL, except that a matched rule with the empty target counts as no match; the 404
  answer is given exactly in that case and when the matcher finds no rule. On a table
  whose targets are non-empty the final decision is the matcher's decision.
\<close>

theorem malformed_inference_is_matcher_decision:
  "req_url req \<noteq> ''/proxy-status'' \<and> parseURL answer = None \<longrightarrow>
     llmProxyMiddleware env parseURL routes req (Text answer) =
       useRuleBasedFallback env routes (req_url req)
     \<and> finalDecision (llmProxyMiddleware env parseURL routes req (Text answer)) =
         withoutEmptyTarget (DeterministicMatcher routes (req_url req))
     \<and> (response (llmProxyMiddleware env parseURL routes req (Text answer)) = NoMatchingRoute
          \<longleftrightarrow> withoutEmptyTarget (DeterministicMatcher routes (req_url req)) = NoMatch)
     \<and> (nonEmptyTargets routes \<longrightarrow>
          finalDecision (llmProxyMiddleware env parseURL routes req (Text answer)) =
            DeterministicMatcher routes (req_url req)
          \<and> (response (llmProxyMiddleware env parseURL routes req (Text answer)) = NoMatchingRoute
               \<longleftrightarrow> DeterministicMatcher routes (req_url req) = NoMatch))"
proof (intro impI conjI)
  assume h: "req_url req \<noteq> ''/proxy-status'' \<and> parseURL answer = None"
  then show e: "llmProxyMiddleware env parseURL routes req (Text answer) =
       useRuleBasedFallback env routes (req_url req)"
    by (simp add: llm_malformed)
  show "finalDecision (llmProxyMiddleware env parseURL routes req (Text answer)) =
         withoutEmptyTarget (DeterministicMatcher routes (req_url req))"
    by (simp only: e finalDecision_fallback_general)
  show "response (llmProxyMiddleware env parseURL routes req (Text answer)) = NoMatchingRoute
          \<longleftrightarrow> withoutEmptyTarget (DeterministicMatcher routes (req_url req)) = NoMatch"
    by (simp only: e response_fallback_general)
  show "finalDecision (llmProxyMiddleware env parseURL routes req (Text answer)) =
            DeterministicMatcher routes (req_url req)"
    if "nonEmptyTargets routes"
    using that by (simp only: e finalDecision_useRuleBasedFallback)
  show "response (llmProxyMiddleware env parseURL routes req (Text answer)) = NoMatchingRoute
               \<longleftrightarrow> DeterministicMatcher routes (req_url req) = NoMatch"
    if "nonEmptyTargets routes"
    using that by (simp only: e response_useRuleBasedFallback_404)
qed

theorem malformed_inference_witness:
  "req_url getUsers \<noteq> ''/proxy-status''
   \<and> newURL (\<lambda>s. None) ''<http://localhost:8001/api/users>'' = None
   \<and> nonEmptyTargets (sortRoutes readmeRules)
   \<and> llmProxyMiddleware allUp (newURL (\<lambda>s. None)) (sortRoutes readmeRules) getUsers
         (Text ''<http://localhost:8001/api/users>'') =
       useRuleBasedFallback allUp (sortRoutes readmeRules) (req_url getUsers)
   \<and> finalDecision (llmProxyMiddleware allUp (newURL (\<lambda>s. None)) (sortRoutes readmeRules) getUsers
         (Text ''<http://localhost:8001/api/users>'')) =
       DeterministicMatcher (sortRoutes readmeRules) (req_url getUsers)
   \<and> DeterministicMatcher (sortRoutes readmeRules) (req_url getUsers) =
       Target ''http://localhost:8001'' ''/api/users''
   \<and> req_url getXY \<noteq> ''/proxy-status''
   \<and> newURL (\<lambda>s. None) ''<http://localhost:8001/x/y>'' = None
   \<and> finalDecision (llmProxyMiddleware allUp (newURL (\<lambda>s. None))
         (parseNginxConfig (Content emptyTargetConf)) getXY (Text ''<http://localhost:8001/x/y>''))
       = withoutEmptyTarget (Target [] ''/x/y'')"
proof -
  let ?P = "newURL (\<lambda>s. None)"
  have n: "?P answer = None" for answer
    by (simp add: newURL_def Let_def split: list.split)
  have h1: "req_url getUsers \<noteq> ''/proxy-status''" by (simp add: getUsers_def)
  have h2: "?P ''<http://localhost:8001/api/users>'' = None" by (rule n)
  have h3: "nonEmptyTargets (sortRoutes readmeRules)"
    by (simp add: sortRoutes_readmeRules nonEmptyTargets_def)
  have v: "DeterministicMatcher (sortRoutes readmeRules) (req_url getUsers) =
       Target ''http://localhost:8001'' ''/api/users''"
    by (simp add: sortRoutes_readmeRules DeterministicMatcher_def getUsers_def)
  have k1: "req_url getXY \<noteq> ''/proxy-status''" by (simp add: getXY_def)
  have k2: "?P ''<http://localhost:8001/x/y>'' = None" by (rule n)
  have w: "DeterministicMatcher (parseNginxConfig (Content emptyTargetConf)) (req_url getXY) =
       Target [] ''/x/y''"
    by (simp add: parse_emptyTargetConf DeterministicMatcher_def getXY_def)
  from malformed_inference_is_matcher_decision
    [of getUsers ?P "''<http://localhost:8001/api/users>''" allUp "sortRoutes readmeRules"]
    h1 h2 h3
  have a: "llmProxyMiddleware allUp ?P (sortRoutes readmeRules) getUsers
         (Text ''<http://localhost:8001/api/users>'') =
       useRuleBasedFallback allUp (sortRoutes readmeRules) (req_url getUsers)"
    and b: "finalDecision (llmProxyMiddleware allUp ?P (sortRoutes readmeRules) getUsers
         (Text ''<http://localhost:8001/api/users>'')) =
       DeterministicMatcher (sortRoutes readmeRules) (req_url getUsers)"
    by blast+
  from malformed_inference_is_matcher_decision
    [of getXY ?P "''<http://localhost:8001/x/y>''" allUp "parseNginxConfig (Content emptyTargetConf)"]
    k1 k2
  have "finalDecision (llmProxyMiddleware allUp ?P
         (parseNginxConfig (Content emptyTargetConf)) getXY (Text ''<http://localhost:8001/x/y>''))
       = withoutEmptyTarget (DeterministicMatcher (parseNginxConfig (Content emptyTargetConf)) (req_url getXY))"
    by blast
  then have c: "finalDecision (llmProxyMiddleware allUp ?P
         (parseNginxConfig (Content emptyTargetConf)) getXY (Text ''<http://localhost:8001/x/y>''))
       = withoutEmptyTarget (Target [] ''/x/y'')"
    by (simp only: w)
  show ?thesis
    by (intro conjI) (rule h1 h2 h3 a b v k1 k2 c)+
qed

text \<open>
  C2, as stated, fails in its last part: the text parses as a URL whose host is in no
  rule, the forward to that host ends in the proxy's error event, and the \<open>onError\<close>
  handler of line 180 consults the rules; the outcome depends on the table.
\<close>

theorem inference_url_counterexample:
  "parsesOnly ''http://localhost:9999/api/users'' url9999 ''http://localhost:9999/api/users'' = Some url9999
   \<and> llmProxyMiddleware (down ''http://localhost:9999'')
         (parsesOnly ''http://localhost:9999/api/users'' url9999) (sortRoutes readmeRules) getUsers
         (Text ''http://localhost:9999/api/users'') =
       \<lparr>routed = [(Inference, ''http://localhost:9999'', ''/api/users''),
                  (Fallback, ''http://localhost:8001'', ''/api/users'')],
        response = Upstream ''http://localhost:8001'' ''/api/users''\<rparr>
   \<and> llmProxyMiddleware (down ''http://localhost:9999'')
         (parsesOnly ''http://localhost:9999/api/users'' url9999) [] getUsers
         (Text ''http://localhost:9999/api/users'') =
       \<lparr>routed = [(Inference, ''http://localhost:9999'', ''/api/users'')],
        response = NoMatchingRoute\<rparr>"
  by (simp add: llmProxyMiddleware_def Let_def parsesOnly_def url9999_def down_def getUsers_def
      sortRoutes_readmeRules useRuleBasedFallback_def after_def)

text \<open>
  C2, amended. For a request that is not the status request: when the text of the model
  parses as a URL, the first routing choice is that URL's protocol and host with the
  URL's path and query, whatever the table holds. When the proxy for it is set up and
  the forward does not fail, this is the whole outcome and the rules are not consulted;
  only when the setup throws or the forward fails does useRuleBasedFallback run after it.
\<close>

theorem inference_url_honoured:
  "req_url req \<noteq> ''/proxy-status'' \<and> parseURL answer = Some u \<longrightarrow>
     hd (routed (llmProxyMiddleware env parseURL routes req (Text answer))) = inferred u
     \<and> (\<not> setupThrows env (protocol u @ ''//'' @ host u)
          \<and> \<not> forwardErrors env (protocol u @ ''//'' @ host u) \<longrightarrow>
         llmProxyMiddleware env parseURL routes req (Text answer) =
           \<lparr>routed = [inferred u],
            response = Upstream (protocol u @ ''//'' @ host u) (pathname u @ search u)\<rparr>)
     \<and> (setupThrows env (protocol u @ ''//'' @ host u)
          \<or> forwardErrors env (protocol u @ ''//'' @ host u) \<longrightarrow>
         llmProxyMiddleware env parseURL routes req (Text answer) =
           after (inferred u) (useRuleBasedFallback env routes (req_url req)))"
  by (simp add: llm_accepted after_def)

theorem inference_url_honoured_witness:
  "req_url getUsers \<noteq> ''/proxy-status''
   \<and> parsesOnly ''http://localhost:9999/api/users'' url9999 ''http://localhost:9999/api/users'' = Some url9999
   \<and> \<not> setupThrows allUp (protocol url9999 @ ''//'' @ host url9999)
   \<and> \<not> forwardErrors allUp (protocol url9999 @ ''//'' @ host url9999)
   \<and> list_all (\<lambda>r. target r \<noteq> ''http://localhost:9999'') (sortRoutes readmeRules)
   \<and> llmProxyMiddleware allUp (parsesOnly ''http://localhost:9999/api/users'' url9999)
         (sortRoutes readmeRules) getUsers (Text ''http://localhost:9999/api/users'') =
       \<lparr>routed = [(Inference, ''http://localhost:9999'', ''/api/users'')],
        response = Upstream ''http://localhost:9999'' ''/api/users''\<rparr>
   \<and> forwardErrors (down ''http://localhost:9999'') (protocol url9999 @ ''//'' @ host url9999)
   \<and> llmProxyMiddleware (down ''http://localhost:9999'')
         (parsesOnly ''http://localhost:9999/api/users'' url9999)
         (sortRoutes readmeRules) getUsers (Text ''http://localhost:9999/api/users'') =
       after (Inference, ''http://localhost:9999'', ''/api/users'')
         (useRuleBasedFallback (down ''http://localhost:9999'') (sortRoutes readmeRules) ''/api/users'')"
proof -
  let ?P = "parsesOnly ''http://localhost:9999/api/users'' url9999"
  have h1: "req_url getUsers \<noteq> ''/proxy-status''" by (simp add: getUsers_def)
  have h2: "?P ''http://localhost:9999/api/users'' = Some url9999"
    by (simp add: parsesOnly_def)
  have h3: "\<not> setupThrows allUp (protocol url9999 @ ''//'' @ host url9999)"
    by (simp add: allUp_def)
  have h4: "\<not> forwardErrors allUp (protocol url9999 @ ''//'' @ host url9999)"
    by (simp add: allUp_def)
  have h5: "list_all (\<lambda>r. target r \<noteq> ''http://localhost:9999'') (sortRoutes readmeRules)"
    by (simp add: sortRoutes_readmeRules)
  have h6: "forwardErrors (down ''http://localhost:9999'') (protocol url9999 @ ''//'' @ host url9999)"
    by (simp add: down_def url9999_def)
  note inst = inference_url_honoured
    [of getUsers ?P "''http://localhost:9999/api/users''" url9999 _ "sortRoutes readmeRules"]
  from inst [of allUp] h1 h2 h3 h4
  have "llmProxyMiddleware allUp ?P (sortRoutes readmeRules) getUsers
          (Text ''http://localhost:9999/api/users'') =
       \<lparr>routed = [inferred url9999],
        response = Upstream (protocol url9999 @ ''//'' @ host url9999)
          (pathname url9999 @ search url9999)\<rparr>"
    by blast
  then have a: "llmProxyMiddleware allUp ?P (sortRoutes readmeRules) getUsers
          (Text ''http://localhost:9999/api/users'') =
       \<lparr>routed = [(Inference, ''http://localhost:9999'', ''/api/users'')],
        response = Upstream ''http://localhost:9999'' ''/api/users''\<rparr>"
    by (simp add: inferred_def url9999_def)
  from inst [of "down ''http://localhost:9999''"] h1 h2 h6
  have "llmProxyMiddleware (down ''http://localhost:9999'') ?P (sortRoutes readmeRules) getUsers
          (Text ''http://localhost:9999/api/users'') =
        after (inferred url9999)
          (useRuleBasedFallback (down ''http://localhost:9999'') (sortRoutes readmeRules)
            (req_url getUsers))"
    by blast
  then have b: "llmProxyMiddleware (down ''http://localhost:9999'') ?P (sortRoutes readmeRules) getUsers
          (Text ''http://localhost:9999/api/users'') =
       after (Inference, ''http://localhost:9999'', ''/api/users'')
         (useRuleBasedFallback (down ''http://localhost:9999'') (sortRoutes readmeRules) ''/api/users'')"
    by (simp add: inferred_def url9999_def getUsers_def)
  show ?thesis
    by (intro conjI) (rule h1 h2 h3 h4 h5 a h6 b)+
qed

text \<open>
  C4, as stated, fails: the model names the target of the root rule, that upstream is
  unreachable, and the \<open>onError\<close> handler routes the request a second time through the
  rules, which forward it to the same upstream again; the answer that ends the request
  is the proxy library's own, for which the source sets no status.
\<close>

theorem unreachable_upstream_counterexample:
  "parsesOnly ''http://localhost:8002/about'' url8002 ''http://localhost:8002/about'' = Some url8002
   \<and> forwardErrors (down ''http://localhost:8002'') ''http://localhost:8002''
   \<and> llmProxyMiddleware (down ''http://localhost:8002'')
         (parsesOnly ''http://localhost:8002/about'' url8002) (sortRoutes readmeRules) getAbout
         (Text ''http://localhost:8002/about'') =
       \<lparr>routed = [(Inference, ''http://localhost:8002'', ''/about''),
                  (Fallback, ''http://localhost:8002'', ''/about'')],
        response = DefaultProxyError\<rparr>
   \<and> statusCode DefaultProxyError = None"
  by (simp add: llmProxyMiddleware_def Let_def parsesOnly_def url8002_def down_def getAbout_def
      sortRoutes_readmeRules useRuleBasedFallback_def after_def)

text \<open>
  C4, amended. A forward chosen by the rules that fails is answered by the proxy library's
  error handler and is not followed by another routing choice. A forward chosen by
  inference that fails is followed by one run of useRuleBasedFallback for the URL of the
  request, with whatever that run gives: a forward, the 404 of line 93 or the 500 of
  line 108. No request gets more than two routing choices, and no answer the source sets
  has status 502.
\<close>

theorem forward_failure_handling:
  "length (routed (useRuleBasedFallback env routes url)) \<le> 1
   \<and> length (routed (llmProxyMiddleware env parseURL routes req ai)) \<le> 2
   \<and> statusCode (response (llmProxyMiddleware env parseURL routes req ai)) \<noteq> Some 502
   \<and> (firstMatch routes url = Some t \<and> t \<noteq> [] \<and> \<not> setupThrows env t \<and> forwardErrors env t \<longrightarrow>
        useRuleBasedFallback env routes url =
          \<lparr>routed = [(Fallback, t, url)], response = DefaultProxyError\<rparr>)
   \<and> (req_url req \<noteq> ''/proxy-status'' \<and> parseURL answer = Some u
        \<and> forwardErrors env (protocol u @ ''//'' @ host u) \<longrightarrow>
        llmProxyMiddleware env parseURL routes req (Text answer) =
          after (inferred u) (useRuleBasedFallback env routes (req_url req)))"
proof (intro conjI impI)
  show "length (routed (useRuleBasedFallback env routes url)) \<le> 1"
    by (rule length_routed_fallback)
  show "length (routed (llmProxyMiddleware env parseURL routes req ai)) \<le> 2"
    by (rule length_routed_llm)
  show "statusCode (response (llmProxyMiddleware env parseURL routes req ai)) \<noteq> Some 502"
    by (rule statusCode_llm)
  show "useRuleBasedFallback env routes url =
          \<lparr>routed = [(Fallback, t, url)], response = DefaultProxyError\<rparr>"
    if "firstMatch routes url = Some t \<and> t \<noteq> [] \<and> \<not> setupThrows env t \<and> forwardErrors env t"
    using that by (simp add: useRuleBasedFallback_def)
  show "llmProxyMiddleware env parseURL routes req (Text answer) =
          after (inferred u) (useRuleBasedFallback env routes (req_url req))"
    if "req_url req \<noteq> ''/proxy-status'' \<and> parseURL answer = Some u
        \<and> forwardErrors env (protocol u @ ''//'' @ host u)"
    using that by (simp add: llm_accepted)
qed

theorem forward_failure_handling_witness:
  "firstMatch (sortRoutes readmeRules) ''/about'' = Some ''http://localhost:8002''
   \<and> ''http://localhost:8002'' \<noteq> []
   \<and> \<not> setupThrows (down ''http://localhost:8002'') ''http://localhost:8002''
   \<and> forwardErrors (down ''http://localhost:8002'') ''http://localhost:8002''
   \<and> req_url getAbout \<noteq> ''/proxy-status''
   \<and> parsesOnly ''http://localhost:8002/about'' url8002 ''http://localhost:8002/about'' = Some url8002
   \<and> forwardErrors (down ''http://localhost:8002'') (protocol url8002 @ ''//'' @ host url8002)
   \<and> useRuleBasedFallback (down ''http://localhost:8002'') (sortRoutes readmeRules) ''/about'' =
        \<lparr>routed = [(Fallback, ''http://localhost:8002'', ''/about'')], response = DefaultProxyError\<rparr>
   \<and> llmProxyMiddleware (down ''http://localhost:8002'')
         (parsesOnly ''http://localhost:8002/about'' url8002) (sortRoutes readmeRules) getAbout
         (Text ''http://localhost:8002/about'') =
        after (inferred url8002)
          (useRuleBasedFallback (down ''http://localhost:8002'') (sortRoutes readmeRules)
             (req_url getAbout))
   \<and> length (routed (llmProxyMiddleware (down ''http://localhost:8002'')
         (parsesOnly ''http://localhost:8002/about'' url8002) (sortRoutes readmeRules) getAbout
         (Text ''http://localhost:8002/about''))) \<le> 2"
proof -
  have h1: "firstMatch (sortRoutes readmeRules) ''/about'' = Some ''http://localhost:8002''"
    by (simp add: sortRoutes_readmeRules)
  have h2: "''http://localhost:8002'' \<noteq> []" by simp
  have h3: "\<not> setupThrows (down ''http://localhost:8002'') ''http://localhost:8002''"
    by (simp add: down_def)
  have h4: "forwardErrors (down ''http://localhost:8002'') ''http://localhost:8002''"
    by (simp add: down_def)
  have h5: "req_url getAbout \<noteq> ''/proxy-status''" by (simp add: getAbout_def)
  have h6: "parsesOnly ''http://localhost:8002/about'' url8002 ''http://localhost:8002/about'' = Some url8002"
    by (simp add: parsesOnly_def)
  have h7: "forwardErrors (down ''http://localhost:8002'') (protocol url8002 @ ''//'' @ host url8002)"
    by (simp add: down_def url8002_def)
  note inst = forward_failure_handling
    [of "down ''http://localhost:8002''" "sortRoutes readmeRules" "''/about''"
      "parsesOnly ''http://localhost:8002/about'' url8002" getAbout
      "Text ''http://localhost:8002/about''" "''http://localhost:8002''"
      "''http://localhost:8002/about''" url8002]
  from inst h1 h2 h3 h4 h5 h6 h7 show ?thesis by blast
qed

text \<open>
  C5. The client of src/index.js trims the text of the model and parses the result. The
  middleware of src/vercel-proxy.ts hands the untrimmed text to \<open>new URL\<close>, which strips
  C0 control and space characters only. Among the strings of code units below 256 the
  two agree on every text without a no-break space (U+00A0). At the text that is a
  no-break space followed by \<open>http://localhost:8001/api/users\<close> they differ: \<open>trim\<close> removes the no-break space and
  the bare URL reaches the parser, while \<open>new URL\<close> fails on the untrimmed text and the
  middleware falls back to the rules.
\<close>

theorem untrimmed_answer_rejected:
  "(noNbsp answer \<longrightarrow> newURL states answer = indexTargetUrl (newURL states) answer)
   \<and> js_trim nbspAnswer = ''http://localhost:8001/api/users''
   \<and> indexTargetUrl (newURL states) nbspAnswer = states ''http://localhost:8001/api/users''
   \<and> newURL states nbspAnswer = None
   \<and> llmProxyMiddleware env (newURL states) routes getUsers (Text nbspAnswer) =
       useRuleBasedFallback env routes ''/api/users''"
  by (simp add: js_trim_nbspAnswer newURL_nbspAnswer newURL_plain indexTargetUrl_def
      llmProxyMiddleware_def getUsers_def newURL_js_trim_noNbsp)

theorem untrimmed_answer_rejected_witness:
  "noNbsp newlineAnswer
   \<and> newURL (parsesOnly ''http://localhost:8001/api/users'' url8001) newlineAnswer = Some url8001
   \<and> indexTargetUrl (newURL (parsesOnly ''http://localhost:8001/api/users'' url8001)) newlineAnswer
       = Some url8001
   \<and> indexTargetUrl (newURL (parsesOnly ''http://localhost:8001/api/users'' url8001)) nbspAnswer
       = Some url8001
   \<and> newURL (parsesOnly ''http://localhost:8001/api/users'' url8001) nbspAnswer = None
   \<and> llmProxyMiddleware allUp (newURL (parsesOnly ''http://localhost:8001/api/users'' url8001)) []
        getUsers (Text nbspAnswer) = \<lparr>routed = [], response = NoMatchingRoute\<rparr>"
proof -
  let ?P = "newURL (parsesOnly ''http://localhost:8001/api/users'' url8001)"
  have h: "noNbsp newlineAnswer"
    by (simp add: noNbsp_def newlineAnswer_def)
  have v: "?P newlineAnswer = Some url8001"
    by (simp add: newlineAnswer_def newURL_def c0_control_or_space_def ascii_tab_or_newline_def
        ascii_alpha_def parsesOnly_def)
  note inst = untrimmed_answer_rejected
    [of _ "parsesOnly ''http://localhost:8001/api/users'' url8001" allUp "[]"]
  from inst [of newlineAnswer] h v have a: "indexTargetUrl ?P newlineAnswer = Some url8001"
    by simp
  from inst [of newlineAnswer]
  have b: "indexTargetUrl ?P nbspAnswer = Some url8001" "?P nbspAnswer = None"
    "llmProxyMiddleware allUp ?P [] getUsers (Text nbspAnswer) =
       \<lparr>routed = [], response = NoMatchingRoute\<rparr>"
    by (simp_all add: parsesOnly_def useRuleBasedFallback_def)
  from h v a b show ?thesis by simp
qed

section \<open>Claims about the status endpoint\<close>

text \<open>
  C9. After any sequence of requests, whatever inference answered and whatever the
  upstreams did, the server state is the one built at startup; every status answer given
  on the way is the status of that state; and a GET of \<open>/proxy-status\<close> reports, in table
  order, one line \<open>path => target\<close> for every rule that parseNginxConfig produced at
  startup, and nothing else.
\<close>

theorem status_reports_startup_rules:
  "serve parseURL (startServer configPath f) arrivals = (replies, srv) \<longrightarrow>
     srv = startServer configPath f
     \<and> st_routes (proxyStatus srv) = map statusLine (parseNginxConfig f)
     \<and> list_all (\<lambda>r. r = ExpressDefault \<or> (\<exists>out. r = Routed out)
                      \<or> r = StatusJson (proxyStatus (startServer configPath f))) replies
     \<and> handleRequest parseURL srv (getStatus, ai, env) =
         (StatusJson
            \<lparr>st_status = ''running'',
             st_sdk = ''Vercel AI SDK with @ai-sdk/anthropic'',
             st_config = configPath,
             st_routes = map statusLine (parseNginxConfig f)\<rparr>, srv)"
proof
  assume a: "serve parseURL (startServer configPath f) arrivals = (replies, srv)"
  from a serve_state [of parseURL "startServer configPath f" arrivals]
  have s: "srv = startServer configPath f" by simp
  have p: "proxyStatus (startServer configPath f) =
      \<lparr>st_status = ''running'', st_sdk = ''Vercel AI SDK with @ai-sdk/anthropic'',
       st_config = configPath, st_routes = map statusLine (parseNginxConfig f)\<rparr>"
    by (simp add: proxyStatus_def startServer_def statusLine_def)
  have l: "list_all (\<lambda>r. r = ExpressDefault \<or> (\<exists>out. r = Routed out)
                      \<or> r = StatusJson (proxyStatus (startServer configPath f))) replies"
    unfolding list_all_iff
  proof
    fix r assume "r \<in> set replies"
    with a have m: "r \<in> set (fst (serve parseURL (startServer configPath f) arrivals))" by simp
    show "r = ExpressDefault \<or> (\<exists>out. r = Routed out)
            \<or> r = StatusJson (proxyStatus (startServer configPath f))"
    proof (cases r)
      case (StatusJson b)
      with m serve_StatusJson [of b parseURL "startServer configPath f" arrivals]
      show ?thesis by simp
    qed simp_all
  qed
  have g: "handleRequest parseURL srv (getStatus, ai, env) = (StatusJson (proxyStatus srv), srv)"
    by (simp add: handleRequest_status getStatus_def)
  from s p l g
  show "srv = startServer configPath f
     \<and> st_routes (proxyStatus srv) = map statusLine (parseNginxConfig f)
     \<and> list_all (\<lambda>r. r = ExpressDefault \<or> (\<exists>out. r = Routed out)
                      \<or> r = StatusJson (proxyStatus (startServer configPath f))) replies
     \<and> handleRequest parseURL srv (getStatus, ai, env) =
         (StatusJson
            \<lparr>st_status = ''running'',
             st_sdk = ''Vercel AI SDK with @ai-sdk/anthropic'',
             st_config = configPath,
             st_routes = map statusLine (parseNginxConfig f)\<rparr>, srv)"
    by simp
qed

theorem status_reports_startup_rules_witness:
  "serve (newURL (\<lambda>s. None)) (startServer ''nginclaude-proxy.conf'' (Content readmeConf))
      [(getUsers, Rejected, allUp), (getStatus, Rejected, allUp),
       (getAbout, Text ''http://localhost:9999/about'', down ''http://localhost:8002'')] =
     ([Routed \<lparr>routed = [(Fallback, ''http://localhost:8001'', ''/api/users'')],
              response = Upstream ''http://localhost:8001'' ''/api/users''\<rparr>,
       StatusJson (proxyStatus (startServer ''nginclaude-proxy.conf'' (Content readmeConf))),
       Routed \<lparr>routed = [(Fallback, ''http://localhost:8002'', ''/about'')],
              response = DefaultProxyError\<rparr>],
      startServer ''nginclaude-proxy.conf'' (Content readmeConf))
   \<and> st_routes (proxyStatus (startServer ''nginclaude-proxy.conf'' (Content readmeConf))) =
       [''/static => http://localhost:8004'', ''/admin => http://localhost:8003'',
        ''/api => http://localhost:8001'', ''/ => http://localhost:8002'']"
proof -
  let ?srv = "startServer ''nginclaude-proxy.conf'' (Content readmeConf)"
  let ?arrivals = "[(getUsers, Rejected, allUp), (getStatus, Rejected, allUp),
       (getAbout, Text ''http://localhost:9999/about'', down ''http://localhost:8002'')]"
  have n: "newURL (\<lambda>s. None) answer = None" for answer
    by (simp add: newURL_def Let_def split: list.split)
  have r: "srv_routes ?srv = sortRoutes readmeRules"
    by (simp add: startServer_def parse_readmeConf)
  have s: "serve (newURL (\<lambda>s. None)) ?srv ?arrivals =
     ([Routed \<lparr>routed = [(Fallback, ''http://localhost:8001'', ''/api/users'')],
              response = Upstream ''http://localhost:8001'' ''/api/users''\<rparr>,
       StatusJson (proxyStatus ?srv),
       Routed \<lparr>routed = [(Fallback, ''http://localhost:8002'', ''/about'')],
              response = DefaultProxyError\<rparr>], ?srv)"
    by (simp add: handleRequest_def llmProxyMiddleware_def Let_def n r sortRoutes_readmeRules
        useRuleBasedFallback_def getUsers_def getStatus_def getAbout_def allUp_def down_def)
  from status_reports_startup_rules
    [of "newURL (\<lambda>s. None)" "''nginclaude-proxy.conf''" "Content readmeConf" ?arrivals _ ?srv] s
  have "st_routes (proxyStatus ?srv) = map statusLine (parseNginxConfig (Content readmeConf))"
    by blast
  then have "st_routes (proxyStatus ?srv) =
       [''/static => http://localhost:8004'', ''/admin => http://localhost:8003'',
        ''/api => http://localhost:8001'', ''/ => http://localhost:8002'']"
    by (simp add: parse_readmeConf sortRoutes_readmeRules statusLine_def)
  with s show ?thesis by blast
qed

text \<open>
  C10. The middleware passes a request on to the status route exactly when \<open>req.url\<close>
  equals \<open>/proxy-status\<close>; the application answers with the status exactly for GET and
  HEAD requests with that URL. Every other request is answered by the routing middleware;
  so is \<open>/proxy-status?verbose=1\<close>, which, when inference throws, is matched against the
  rules like any other URL.
\<close>

theorem status_bypass_exact:
  "(response (llmProxyMiddleware env parseURL routes req ai) = PassedOn
      \<longleftrightarrow> req_url req = ''/proxy-status'')
   \<and> ((\<exists>b. fst (handleRequest parseURL srv (req, ai, env)) = StatusJson b)
      \<longleftrightarrow> req_url req = ''/proxy-status'' \<and> (req_method req = ''GET'' \<or> req_method req = ''HEAD''))
   \<and> (req_url req \<noteq> ''/proxy-status'' \<longrightarrow>
        handleRequest parseURL srv (req, ai, env) =
          (Routed (llmProxyMiddleware env parseURL (srv_routes srv) req ai), srv))
   \<and> handleRequest parseURL srv (getStatusVerbose, ai, env) =
        (Routed (llmProxyMiddleware env parseURL (srv_routes srv) getStatusVerbose ai), srv)
   \<and> llmProxyMiddleware env parseURL routes getStatusVerbose Rejected =
        useRuleBasedFallback env routes ''/proxy-status?verbose=1''"
proof (intro conjI impI)
  show "response (llmProxyMiddleware env parseURL routes req ai) = PassedOn
      \<longleftrightarrow> req_url req = ''/proxy-status''"
    by (rule llm_PassedOn_iff)
  show "(\<exists>b. fst (handleRequest parseURL srv (req, ai, env)) = StatusJson b)
      \<longleftrightarrow> req_url req = ''/proxy-status'' \<and> (req_method req = ''GET'' \<or> req_method req = ''HEAD'')"
    by (cases "req_url req = ''/proxy-status''")
      (simp_all add: handleRequest_status handleRequest_routed)
  show "handleRequest parseURL srv (req, ai, env) =
          (Routed (llmProxyMiddleware env parseURL (srv_routes srv) req ai), srv)"
    if "req_url req \<noteq> ''/proxy-status''"
    using that by (rule handleRequest_routed)
  show "handleRequest parseURL srv (getStatusVerbose, ai, env) =
        (Routed (llmProxyMiddleware env parseURL (srv_routes srv) getStatusVerbose ai), srv)"
    by (rule handleRequest_routed) (simp add: getStatusVerbose_def)
  show "llmProxyMiddleware env parseURL routes getStatusVerbose Rejected =
        useRuleBasedFallback env routes ''/proxy-status?verbose=1''"
    by (simp add: llmProxyMiddleware_def getStatusVerbose_def)
qed

theorem status_bypass_exact_witness:
  "req_url getStatusVerbose \<noteq> ''/proxy-status''
   \<and> handleRequest (newURL (\<lambda>s. None)) (startServer ''nginclaude-proxy.conf'' (Content readmeConf))
        (getStatusVerbose, Rejected, allUp) =
       (Routed \<lparr>routed = [(Fallback, ''http://localhost:8002'', ''/proxy-status?verbose=1'')],
               response = Upstream ''http://localhost:8002'' ''/proxy-status?verbose=1''\<rparr>,
        startServer ''nginclaude-proxy.conf'' (Content readmeConf))
   \<and> response (llmProxyMiddleware allUp (newURL (\<lambda>s. None)) (sortRoutes readmeRules) getStatus Rejected)
       = PassedOn"
proof -
  let ?srv = "startServer ''nginclaude-proxy.conf'' (Content readmeConf)"
  have h: "req_url getStatusVerbose \<noteq> ''/proxy-status''" by (simp add: getStatusVerbose_def)
  have r: "srv_routes ?srv = sortRoutes readmeRules"
    by (simp add: startServer_def parse_readmeConf)
  note inst = status_bypass_exact [of allUp "newURL (\<lambda>s. None)" _ _ Rejected ?srv]
  from inst [of "sortRoutes readmeRules" getStatusVerbose]
  have a: "handleRequest (newURL (\<lambda>s. None)) ?srv (getStatusVerbose, Rejected, allUp) =
        (Routed (llmProxyMiddleware allUp (newURL (\<lambda>s. None)) (srv_routes ?srv) getStatusVerbose Rejected), ?srv)"
    and b: "llmProxyMiddleware allUp (newURL (\<lambda>s. None)) (sortRoutes readmeRules) getStatusVerbose Rejected =
        useRuleBasedFallback allUp (sortRoutes readmeRules) ''/proxy-status?verbose=1''"
    by blast+
  have c: "useRuleBasedFallback allUp (sortRoutes readmeRules) ''/proxy-status?verbose=1'' =
       \<lparr>routed = [(Fallback, ''http://localhost:8002'', ''/proxy-status?verbose=1'')],
               response = Upstream ''http://localhost:8002'' ''/proxy-status?verbose=1''\<rparr>"
    by (simp add: useRuleBasedFallback_def sortRoutes_readmeRules allUp_def)
  from inst [of "sortRoutes readmeRules" getStatus]
  have d: "response (llmProxyMiddleware allUp (newURL (\<lambda>s. None)) (sortRoutes readmeRules) getStatus Rejected)
       = PassedOn"
    by (simp add: getStatus_def)
  from h a b c d r show ?thesis by simp
qed

section \<open>Claims about a configuration that yields no rule\<close>

text \<open>
  C7. When reading the configuration file fails, and likewise when the file holds no rule
  statement, parseNginxConfig returns the empty table instead of failing, and the server
  starts with it. With the empty table every request other than the status request is
  answered by the routing middleware, and the answer is the 404 of line 93 unless
  inference returned a text that parses as a URL and the forward to it succeeded.
\<close>

theorem config_failure_nonfatal:
  "parseNginxConfig ReadFails = []
   \<and> (execAll locationRegex 0 content = [] \<longrightarrow> parseNginxConfig (Content content) = [])
   \<and> (parseNginxConfig f = [] \<and> req_url req \<noteq> ''/proxy-status'' \<longrightarrow>
        (\<exists>out. handleRequest parseURL (startServer configPath f) (req, ai, env) =
                 (Routed out, startServer configPath f)
           \<and> (response out = NoMatchingRoute
                \<or> (\<exists>answer u. ai = Text answer \<and> parseURL answer = Some u
                      \<and> out = \<lparr>routed = [inferred u],
                               response = Upstream (protocol u @ ''//'' @ host u)
                                            (pathname u @ search u)\<rparr>))))
   \<and> statusCode NoMatchingRoute = Some 404"
proof (intro conjI impI)
  show "parseNginxConfig ReadFails = []"
    by (simp add: parseNginxConfig_def)
  show "parseNginxConfig (Content content) = []" if "execAll locationRegex 0 content = []"
    using that by (simp add: parseNginxConfig_def sortRoutes_Nil)
  show "statusCode NoMatchingRoute = Some 404" by simp
  show "\<exists>out. handleRequest parseURL (startServer configPath f) (req, ai, env) =
                 (Routed out, startServer configPath f)
           \<and> (response out = NoMatchingRoute
                \<or> (\<exists>answer u. ai = Text answer \<and> parseURL answer = Some u
                      \<and> out = \<lparr>routed = [inferred u],
                               response = Upstream (protocol u @ ''//'' @ host u)
                                            (pathname u @ search u)\<rparr>))"
    if h: "parseNginxConfig f = [] \<and> req_url req \<noteq> ''/proxy-status''"
  proof -
    from h have r: "srv_routes (startServer configPath f) = []"
      by (simp add: startServer_def)
    from h have "handleRequest parseURL (startServer configPath f) (req, ai, env) =
        (Routed (llmProxyMiddleware env parseURL [] req ai), startServer configPath f)"
      by (simp add: handleRequest_routed r)
    with llm_empty_table [of req env parseURL ai] h show ?thesis by blast
  qed
qed

theorem config_failure_nonfatal_witness:
  "execAll locationRegex 0 noRuleConf = []
   \<and> parseNginxConfig (Content noRuleConf) = []
   \<and> parseNginxConfig ReadFails = []
   \<and> req_url getUsers \<noteq> ''/proxy-status''
   \<and> (\<exists>out. handleRequest (newURL (\<lambda>s. None)) (startServer ''nginclaude-proxy.conf'' ReadFails)
               (getUsers, Text ''<http://localhost:8001/api/users>'', allUp) =
                 (Routed out, startServer ''nginclaude-proxy.conf'' ReadFails)
           \<and> response out = NoMatchingRoute)"
proof -
  have h1: "execAll locationRegex 0 noRuleConf = []" by (rule execAll_noRuleConf)
  have h2: "parseNginxConfig ReadFails = []" by (simp add: parseNginxConfig_def)
  have h3: "req_url getUsers \<noteq> ''/proxy-status''" by (simp add: getUsers_def)
  note inst = config_failure_nonfatal
    [of noRuleConf ReadFails getUsers "newURL (\<lambda>s. None)" "''nginclaude-proxy.conf''"
      "Text ''<http://localhost:8001/api/users>''" allUp]
  from inst h1 have c: "parseNginxConfig (Content noRuleConf) = []" by blast
  have n: "newURL (\<lambda>s. None) answer = None" for answer
    by (simp add: newURL_def Let_def split: list.split)
  from inst h2 h3 obtain out where
    o: "handleRequest (newURL (\<lambda>s. None)) (startServer ''nginclaude-proxy.conf'' ReadFails)
               (getUsers, Text ''<http://localhost:8001/api/users>'', allUp) =
                 (Routed out, startServer ''nginclaude-proxy.conf'' ReadFails)"
    and "response out = NoMatchingRoute
         \<or> (\<exists>answer u. Text ''<http://localhost:8001/api/users>'' = Text answer
               \<and> newURL (\<lambda>s. None) answer = Some u
               \<and> out = \<lparr>routed = [inferred u],
                        response = Upstream (protocol u @ ''//'' @ host u)
                                     (pathname u @ search u)\<rparr>)"
    by blast
  then have "response out = NoMatchingRoute" by (simp add: n)
  with o h1 h2 h3 c show ?thesis by blast
qed

end
